theory Spec2Isabelle
  imports Complex_Main "HOL-Library.Signed_Division" "HOL-Library.AList"
begin

section \<open>Blip: the per-monitor control plane\<close>

text \<open>
  A shallow embedding of the parts of Blip that drive metrics collection for one
  monitor: the heartbeat writer (\<^verbatim>\<open>heartbeat/writer.go\<close>), the level plan collector and the
  sorted levels (\<^verbatim>\<open>monitor/level_collector.go\<close>), the level plan adjuster
  (\<^verbatim>\<open>monitor/level_adjuster.go\<close>), the monitor loader (\<^verbatim>\<open>monitor/loader.go\<close>), the plan
  loader (\<^verbatim>\<open>plan/plan_loader.go\<close>) and the \<^verbatim>\<open>size.data\<close> collector.

  Conventions. A Go \<^verbatim>\<open>error\<close> is a \<open>string option\<close>: \<open>None\<close> is \<^verbatim>\<open>nil\<close>, \<open>Some m\<close> an
  error whose \<^verbatim>\<open>Error()\<close> is \<open>m\<close>. A \<^verbatim>\<open>time.Duration\<close> is an \<open>int\<close> of nanoseconds. A
  Go \<^verbatim>\<open>map\<close> that the code ranges over is an association list with distinct keys; the
  order of the list stands for the order in which \<^verbatim>\<open>range\<close> happens to visit the map. A
  run-time panic is a value \<open>Inl p\<close> of a sum type. Results of calls that leave the
  process (the database, a sink, the clock) are inputs of the model.
\<close>

type_synonym error = "string option"

type_synonym Duration = int

definition Second :: Duration where
  "Second = 1000000000"

datatype panic = DivideByZero | IndexOutOfRange | NilMapAssign

subsection \<open>Heartbeat writer\<close>

text \<open>
  \<^verbatim>\<open>var WriteTimeout = 5 * time.Second\<close>, \<^verbatim>\<open>var InitErrorWait = 10 * time.Second\<close>,
  \<^verbatim>\<open>var ReadOnlyWait = 20 * time.Second\<close>.
\<close>

definition WriteTimeout :: Duration where
  "WriteTimeout = 5 * Second"

definition InitErrorWait :: Duration where
  "InitErrorWait = 10 * Second"

definition ReadOnlyWait :: Duration where
  "ReadOnlyWait = 20 * Second"

text \<open>
  What \<^verbatim>\<open>w.db.ExecContext\<close> returned, as the writer tells the cases apart: \<^verbatim>\<open>err == nil\<close>,
  \<^verbatim>\<open>sqlutil.ReadOnly(err)\<close>, any other error.
\<close>

datatype exec_result = ExecOK | ExecReadOnly | ExecError

text \<open>What the writer does, in order: sleeps, statements executed, status lines, return.\<close>

datatype hb_action = Sleep Duration | Exec string | SetStatus string | Return

record Writer =
  w_monitorId :: string
  w_freq :: Duration
  w_table :: string

text \<open>
  One pass of the second \<^verbatim>\<open>for\<close> loop of \<^verbatim>\<open>Writer.Write\<close>, up to the check of the stop
  channel: sleep \<^verbatim>\<open>w.freq\<close>, execute the UPDATE, and branch on its result.
\<close>

definition write_cycle :: "Writer \<Rightarrow> exec_result \<Rightarrow> hb_action list" where
  "write_cycle w r =
     [Sleep (w_freq w), SetStatus ''write'', Exec ''UPDATE''] @
     (case r of
        ExecReadOnly \<Rightarrow> [SetStatus ''MySQL is read-only, sleeping'', Sleep ReadOnlyWait]
      | ExecError \<Rightarrow> [SetStatus ''write error'']
      | ExecOK \<Rightarrow> [SetStatus ''sleep''])"

text \<open>
  The steady-state loop. Each input is the result of one UPDATE and whether the stop
  channel was closed when the pass polled it. The loop has no exit of its own: the model
  stops (without \<open>Return\<close>) when the inputs are used up.
\<close>

fun write_steady :: "Writer \<Rightarrow> (exec_result \<times> bool) list \<Rightarrow> hb_action list" where
  "write_steady w [] = []"
| "write_steady w ((r, stop) # ins) =
     write_cycle w r @ (if stop then [Return] else write_steady w ins)"

text \<open>
  The whole of \<^verbatim>\<open>Writer.Write\<close>: the first loop repeats the INSERT until it succeeds,
  sleeping \<^verbatim>\<open>ReadOnlyWait\<close> or \<^verbatim>\<open>InitErrorWait\<close> after a failure; a success breaks out of
  it before the stop channel is polled.
\<close>

fun Write :: "Writer \<Rightarrow> (exec_result \<times> bool) list \<Rightarrow> hb_action list" where
  "Write w [] = []"
| "Write w ((r, stop) # ins) =
     [SetStatus ''first insert'', Exec ''INSERT''] @
     (case r of
        ExecOK \<Rightarrow> SetStatus ''sleep'' # write_steady w ins
      | ExecReadOnly \<Rightarrow>
          [SetStatus ''init: MySQL is read-only, sleeping'', Sleep ReadOnlyWait] @
          (if stop then [Return] else Write w ins)
      | ExecError \<Rightarrow>
          [SetStatus ''init: error'', Sleep InitErrorWait] @
          (if stop then [Return] else Write w ins))"

text \<open>The sleeps of a trace, in order.\<close>

fun sleeps :: "hb_action list \<Rightarrow> Duration list" where
  "sleeps [] = []"
| "sleeps (Sleep d # as) = d # sleeps as"
| "sleeps (a # as) = sleeps as"

text \<open>The sleeps of one steady-state pass, as the specification words them.\<close>

definition cycle_sleeps :: "Duration \<Rightarrow> exec_result \<Rightarrow> Duration list" where
  "cycle_sleeps f r = (if r = ExecReadOnly then [f, 20 * Second] else [f])"

text \<open>The passes that run: up to and including the first one that finds the stop channel closed.\<close>

fun passes :: "(exec_result \<times> bool) list \<Rightarrow> exec_result list" where
  "passes [] = []"
| "passes ((r, stop) # ins) = r # (if stop then [] else passes ins)"

subsection \<open>Plans and sorted levels\<close>

text \<open>
  \<^verbatim>\<open>blip.Plan\<close>, \<^verbatim>\<open>blip.Level\<close> and \<^verbatim>\<open>blip.Domain\<close>, with the fields the code reads:
  \<^verbatim>\<open>plan.Levels\<close> is a map from level name to level, \<^verbatim>\<open>level.Collect\<close> a map from domain name
  to domain, \<^verbatim>\<open>dom.Metrics\<close> a slice of strings and \<^verbatim>\<open>dom.Options\<close> a map of strings. A
  level read from YAML with no \<^verbatim>\<open>collect\<close> key has a \<^verbatim>\<open>nil\<close> map: \<open>l_Collect = None\<close>.
  Reading a \<^verbatim>\<open>nil\<close> map finds nothing; assigning to one panics. A slice is a list, and
  \<^verbatim>\<open>append\<close> is \<open>@\<close>; the backing array that copies of a slice share is not modelled.
\<close>

record Domain =
  d_Name :: string
  d_Options :: "(string \<times> string) list"
  d_Metrics :: "string list"

record Level =
  l_Name :: string
  l_Freq :: string
  l_Collect :: "(string \<times> Domain) list option"

record Plan =
  p_Name :: string
  p_Levels :: "(string \<times> Level) list"
  p_MonitorId :: string

definition zeroDomain :: Domain where
  "zeroDomain = \<lparr>d_Name = [], d_Options = [], d_Metrics = []\<rparr>"

definition zeroLevel :: Level where
  "zeroLevel = \<lparr>l_Name = [], l_Freq = [], l_Collect = None\<rparr>"

definition zeroPlan :: Plan where
  "zeroPlan = \<lparr>p_Name = [], p_Levels = [], p_MonitorId = []\<rparr>"

text \<open>\<^verbatim>\<open>type level struct { freq int; name string }\<close>, a sorted level.\<close>

record level =
  lv_freq :: int
  lv_name :: string

text \<open>\<^verbatim>\<open>plan.Levels[name]\<close>: the zero level when the key is missing.\<close>

definition getLevel :: "(string \<times> Level) list \<Rightarrow> string \<Rightarrow> Level" where
  "getLevel P n = (case map_of P n of Some l \<Rightarrow> l | None \<Rightarrow> zeroLevel)"

text \<open>\<^verbatim>\<open>dom, ok := l.Collect[domain]\<close>.\<close>

definition getDomain :: "Level \<Rightarrow> string \<Rightarrow> Domain option" where
  "getDomain l d = (case l_Collect l of None \<Rightarrow> None | Some cm \<Rightarrow> map_of cm d)"

text \<open>The keys that \<^verbatim>\<open>for domain := range l.Collect\<close> visits.\<close>

definition domainsOf :: "Level \<Rightarrow> string list" where
  "domainsOf l = (case l_Collect l of None \<Rightarrow> [] | Some cm \<Rightarrow> map fst cm)"

text \<open>
  The body of \<^verbatim>\<open>for domain := range root.Collect\<close> in \<^verbatim>\<open>sortedLevels\<close>. \<^verbatim>\<open>leaf\<close> is a copy of
  the level struct, but \<^verbatim>\<open>leaf.Collect\<close> is the plan's own map, so the assignment changes
  the plan.
\<close>

definition inheritDomain ::
  "string \<Rightarrow> string \<Rightarrow> string \<Rightarrow> (string \<times> Level) list \<Rightarrow> panic + (string \<times> Level) list" where
  "inheritDomain rootLevel leafLevel domain P =
     (let root = getLevel P rootLevel;
          leaf = getLevel P leafLevel;
          rdom = (case getDomain root domain of Some x \<Rightarrow> x | None \<Rightarrow> zeroDomain)
      in case l_Collect leaf of
           None \<Rightarrow> Inl NilMapAssign
         | Some cm \<Rightarrow>
             (case map_of cm domain of
                None \<Rightarrow>
                  Inr (AList.map_entry leafLevel
                         (\<lambda>l. l\<lparr>l_Collect := Some (AList.update domain rdom cm)\<rparr>) P)
              | Some dm \<Rightarrow>
                  Inr (AList.map_entry leafLevel
                         (\<lambda>l. l\<lparr>l_Collect := Some (AList.update domain
                                 (dm\<lparr>d_Metrics := d_Metrics dm @ d_Metrics rdom\<rparr>) cm)\<rparr>) P)))"

fun inheritDomains ::
  "string \<Rightarrow> string \<Rightarrow> string list \<Rightarrow> (string \<times> Level) list \<Rightarrow> panic + (string \<times> Level) list" where
  "inheritDomains r l [] P = Inr P"
| "inheritDomains r l (d # ds) P =
     (case inheritDomain r l d P of Inl e \<Rightarrow> Inl e | Inr P' \<Rightarrow> inheritDomains r l ds P')"

text \<open>\<^verbatim>\<open>for j := i + 1; j < len(levels); j++\<close>: the leaves of one root.\<close>

fun inheritLeaves ::
  "string \<Rightarrow> string list \<Rightarrow> (string \<times> Level) list \<Rightarrow> panic + (string \<times> Level) list" where
  "inheritLeaves r [] P = Inr P"
| "inheritLeaves r (l # ls) P =
     (case inheritDomains r l (domainsOf (getLevel P r)) P of
        Inl e \<Rightarrow> Inl e
      | Inr P' \<Rightarrow> inheritLeaves r ls P')"

text \<open>\<^verbatim>\<open>for i := 0; i < len(levels); i++\<close>: every level is the root of the levels after it.\<close>

fun inheritAll :: "string list \<Rightarrow> (string \<times> Level) list \<Rightarrow> panic + (string \<times> Level) list" where
  "inheritAll [] P = Inr P"
| "inheritAll (r # rs) P =
     (case inheritLeaves r rs P of Inl e \<Rightarrow> Inl e | Inr P' \<Rightarrow> inheritAll rs P')"

text \<open>
  \<^verbatim>\<open>sortedLevels\<close>. \<open>secs\<close> stands for \<^verbatim>\<open>int(d.Seconds())\<close> of \<^verbatim>\<open>time.ParseDuration(l.Freq)\<close> (the
  parse error is dropped by the code, so \<open>secs\<close> is total). The sort is by \<^verbatim>\<open>freq\<close> alone;
  \<open>sort_key\<close> keeps levels of equal \<^verbatim>\<open>freq\<close> in the order the map was visited, where Go's
  \<^verbatim>\<open>sort.Sort\<close> leaves their order open. The Go function returns the levels and changes the
  plan's \<^verbatim>\<open>Collect\<close> maps in place; the model returns both, and the plan it returns lists
  the levels in the order of the plan it was given.
\<close>

definition planLevels :: "(string \<Rightarrow> int) \<Rightarrow> Plan \<Rightarrow> level list" where
  "planLevels secs plan =
     sort_key lv_freq
       (map (\<lambda>(k, l). \<lparr>lv_freq = secs (l_Freq l), lv_name = l_Name l\<rparr>) (p_Levels plan))"

definition sortedLevels :: "(string \<Rightarrow> int) \<Rightarrow> Plan \<Rightarrow> panic + (level list \<times> Plan)" where
  "sortedLevels secs plan =
     (let levels = planLevels secs plan
      in case inheritAll (map lv_name levels) (p_Levels plan) of
           Inl e \<Rightarrow> Inl e
         | Inr P' \<Rightarrow> Inr (levels, plan\<lparr>p_Levels := P'\<rparr>))"

text \<open>
  What a level collects, read off the plan: the domains configured at the level, and
  the set of metrics of each domain.
\<close>

definition domainKeys :: "Level \<Rightarrow> string set" where
  "domainKeys lvl = set (domainsOf lvl)"

definition metricsOf :: "Level \<Rightarrow> string \<Rightarrow> string set" where
  "metricsOf lvl d = (case getDomain lvl d of None \<Rightarrow> {} | Some dm \<Rightarrow> set (d_Metrics dm))"

text \<open>
  Both at once, as one set: \<open>(d, None)\<close> for a domain \<open>d\<close> of level \<open>n\<close>, and \<open>(d, Some m)\<close> for
  a metric \<open>m\<close> of that domain. \<open>slice P r d\<close> is what one pass of the loop over the
  domains of the root \<open>r\<close> adds to a leaf for the domain \<open>d\<close>.
\<close>

definition content :: "(string \<times> Level) list \<Rightarrow> string \<Rightarrow> (string \<times> string option) set" where
  "content P n =
     {(d, x). case x of None \<Rightarrow> d \<in> domainKeys (getLevel P n)
                     | Some m \<Rightarrow> m \<in> metricsOf (getLevel P n) d}"

definition slice :: "(string \<times> Level) list \<Rightarrow> string \<Rightarrow> string \<Rightarrow> (string \<times> string option) set" where
  "slice P r d = {(d', x). d' = d \<and> (case x of None \<Rightarrow> True | Some m \<Rightarrow> m \<in> metricsOf (getLevel P r) d)}"

text \<open>The part of the levels that \<^verbatim>\<open>sortedLevels\<close> never writes: key, name and freq, in order.\<close>

definition levelHeads :: "(string \<times> Level) list \<Rightarrow> (string \<times> string \<times> string) list" where
  "levelHeads P = map (\<lambda>(k, l). (k, l_Name l, l_Freq l)) P"

text \<open>
  Inheritance is in place along a list of level names when every level has all that
  the levels before it have.
\<close>

fun inherited :: "string list \<Rightarrow> (string \<times> Level) list \<Rightarrow> bool" where
  "inherited [] P = True"
| "inherited (r # rs) P = ((\<forall>l\<in>set rs. content P r \<subseteq> content P l) \<and> inherited rs P)"

subsection \<open>Level plan collector\<close>

text \<open>
  The fields of \<^verbatim>\<open>lpc\<close> that the run loop, the plan change and the status read or write.
  \<^verbatim>\<open>c.sinks\<close> is kept as the list of the sinks' names (\<^verbatim>\<open>Name()\<close>); \<^verbatim>\<open>c.sinkErrors\<close> is
  a map from sink name to error. \<open>c_changePlan\<close> is the \<^verbatim>\<open>changePlan\<close> goroutine that is
  running, if any: the state and plan name it was started for, whether its context has
  been cancelled, and, once it has left its first loop, the plan it loaded and the
  sorted levels it computed. \<open>c_returned\<close> lists the goroutines that have returned, as
  they were when they returned.
\<close>

record swap =
  sw_state :: string
  sw_plan :: string
  sw_cancelled :: bool
  sw_loaded :: "(Plan \<times> level list) option"

record lpc =
  c_sinks :: "string list"
  c_monitorId :: string
  c_state :: string
  c_plan :: Plan
  c_changing :: bool
  c_changePlan :: "swap option"
  c_returned :: "swap list"
  c_levels :: "level list"
  c_paused :: bool
  c_stopped :: bool
  c_lastCollectTs :: int
  c_lastCollectError :: error
  c_lastCollectErrorTs :: int
  c_sinkErrors :: "(string \<times> error) list"

text \<open>\<^verbatim>\<open>NewLevelCollector\<close>: paused, nothing changing, no sink errors.\<close>

definition NewLevelCollector :: "string \<Rightarrow> string list \<Rightarrow> lpc" where
  "NewLevelCollector monitorId sinks =
     \<lparr>c_sinks = sinks, c_monitorId = monitorId, c_state = [], c_plan = zeroPlan,
      c_changing = False, c_changePlan = None, c_returned = [], c_levels = [],
      c_paused = True, c_stopped = False, c_lastCollectTs = 0, c_lastCollectError = None,
      c_lastCollectErrorTs = 0, c_sinkErrors = []\<rparr>"

definition maxCollectors :: nat where
  "maxCollectors = 2"

text \<open>
  The local variables of \<^verbatim>\<open>Run\<close>: the tick counter \<^verbatim>\<open>s\<close>, \<^verbatim>\<open>level\<close>, \<^verbatim>\<open>levelName\<close>, and the
  number of tokens in the channel \<^verbatim>\<open>sem\<close>. \<^verbatim>\<open>s\<close> is a Go \<^verbatim>\<open>int\<close> that counts seconds; it is
  modelled unbounded.
\<close>

record run_vars =
  r_s :: int
  r_level :: int
  r_levelName :: string
  r_sem :: nat

definition run_init :: run_vars where
  "run_init = \<lparr>r_s = - 1, r_level = - 1, r_levelName = [], r_sem = maxCollectors\<rparr>"

text \<open>
  \<^verbatim>\<open>for i := range c.levels { if s%c.levels[i].freq == 0 { level = i } }\<close>. Go's \<^verbatim>\<open>%\<close>
  truncates towards zero (\<open>smod\<close>) and panics when the divisor is zero.
\<close>

fun lowest_level :: "int \<Rightarrow> level list \<Rightarrow> int \<Rightarrow> int \<Rightarrow> panic + int" where
  "lowest_level s [] i lvl = Inr lvl"
| "lowest_level s (l # ls) i lvl =
     (if lv_freq l = 0 then Inl DivideByZero
      else lowest_level s ls (i + 1) (if s smod lv_freq l = 0 then i else lvl))"

text \<open>\<^verbatim>\<open>setErr\<close>, without the event it sends.\<close>

definition setErr :: "error \<Rightarrow> int \<Rightarrow> lpc \<Rightarrow> lpc" where
  "setErr err now c =
     c\<lparr>c_lastCollectError := err,
       c_lastCollectErrorTs := (if err \<noteq> None then now else 0)\<rparr>"

text \<open>
  The error recorded when no collector is free:
  \<^verbatim>\<open>"cannot callect %s/%s: %d of %d collectors still running"\<close> with the plan name, the
  level name and \<^verbatim>\<open>maxCollectors\<close> twice.
\<close>

definition blocked_errMsg :: "lpc \<Rightarrow> string \<Rightarrow> string" where
  "blocked_errMsg c levelName =
     ''cannot callect '' @ p_Name (c_plan c) @ ''/'' @ levelName @
     '': 2 of 2 collectors still running''"

text \<open>What one tick of the run loop did.\<close>

datatype tick_event = Stopped | SkipPaused | SkipNoLevel | Launch string | Blocked string

text \<open>
  One pass of \<^verbatim>\<open>for range ticker.C\<close> in \<^verbatim>\<open>Run\<close>. \<open>stop\<close> says whether the stop channel is
  closed, \<open>now\<close> is the clock for \<^verbatim>\<open>setErr\<close>. \<open>Launch n\<close> is \<^verbatim>\<open>go c.collect(n)\<close> after taking a
  token from \<^verbatim>\<open>sem\<close>; \<open>Blocked n\<close> is the \<^verbatim>\<open>default\<close> branch of the \<^verbatim>\<open>select\<close>.
\<close>

definition tick :: "bool \<Rightarrow> int \<Rightarrow> lpc \<Rightarrow> run_vars \<Rightarrow> panic + (tick_event \<times> lpc \<times> run_vars)" where
  "tick stop now c r =
     (let r1 = r\<lparr>r_s := r_s r + 1\<rparr> in
      if stop then
        Inr (Stopped,
             c\<lparr>c_stopped := True,
               c_changePlan := (if c_changing c
                                then map_option (\<lambda>g. g\<lparr>sw_cancelled := True\<rparr>) (c_changePlan c)
                                else c_changePlan c)\<rparr>,
             r1)
      else if c_paused c then Inr (SkipPaused, c, r1\<lparr>r_s := - 1\<rparr>)
      else
        (case lowest_level (r_s r1) (c_levels c) 0 (r_level r1) of
           Inl p \<Rightarrow> Inl p
         | Inr lvl \<Rightarrow>
             if lvl = - 1 then Inr (SkipNoLevel, c, r1\<lparr>r_level := lvl\<rparr>)
             else if lvl < 0 \<or> int (length (c_levels c)) \<le> lvl then Inl IndexOutOfRange
             else
               (let r2 = r1\<lparr>r_levelName := lv_name (c_levels c ! nat lvl), r_level := - 1\<rparr> in
                if 0 < r_sem r2
                then Inr (Launch (r_levelName r2), c, r2\<lparr>r_sem := r_sem r2 - 1\<rparr>)
                else Inr (Blocked (r_levelName r2),
                          setErr (Some (blocked_errMsg c (r_levelName r2))) now c,
                          r2))))"

text \<open>\<^verbatim>\<open>Pause\<close>, and the callback \<^verbatim>\<open>after\<close> of \<^verbatim>\<open>changePlan\<close> that commits the new plan.\<close>

definition Pause :: "lpc \<Rightarrow> lpc" where
  "Pause c = c\<lparr>c_paused := True\<rparr>"

definition after :: "string \<Rightarrow> Plan \<Rightarrow> level list \<Rightarrow> lpc \<Rightarrow> lpc" where
  "after newState newPlan levels c =
     c\<lparr>c_state := newState, c_plan := newPlan, c_levels := levels, c_paused := False\<rparr>"









text \<open>
  A trace of the collector: ticks of \<^verbatim>\<open>Run\<close>, interleaved with calls of \<^verbatim>\<open>Pause\<close>, with
  commits (the callback \<^verbatim>\<open>after\<close>, run by \<^verbatim>\<open>Engine.Prepare\<close> once it has called \<^verbatim>\<open>Pause\<close> and
  swapped its own plan) and with collections that end and give their token back. The
  fields these steps touch are guarded by \<^verbatim>\<open>c.stateMux\<close>, so the steps do not overlap.
\<close>

datatype step = Tick | CallPause | Commit string Plan "level list" | CollectDone

fun run_steps ::
  "step list \<Rightarrow> lpc \<Rightarrow> run_vars \<Rightarrow> panic + (tick_event list \<times> lpc \<times> run_vars)" where
  "run_steps [] c r = Inr ([], c, r)"
| "run_steps (Tick # ss) c r =
     (case tick False 0 c r of
        Inl p \<Rightarrow> Inl p
      | Inr (e, c', r') \<Rightarrow>
          (case run_steps ss c' r' of
             Inl p \<Rightarrow> Inl p
           | Inr (es, c'', r'') \<Rightarrow> Inr (e # es, c'', r'')))"
| "run_steps (CallPause # ss) c r = run_steps ss (Pause c) r"
| "run_steps (Commit st pl lv # ss) c r = run_steps ss (after st pl lv c) r"
| "run_steps (CollectDone # ss) c r = run_steps ss c (r\<lparr>r_sem := r_sem r + 1\<rparr>)"

text \<open>
  \<^verbatim>\<open>fmt.Errorf("[%s] %s", time.Now(), err)\<close>: \<open>now\<close> is the formatted time; a \<^verbatim>\<open>nil\<close> error
  is formatted by \<^verbatim>\<open>%s\<close> as \<^verbatim>\<open>%!s(<nil>)\<close>. The result is never \<^verbatim>\<open>nil\<close>.
\<close>

definition Errorf_sink :: "string \<Rightarrow> error \<Rightarrow> error" where
  "Errorf_sink now err =
     Some (''['' @ now @ ''] '' @ (case err of None \<Rightarrow> ''%!s(<nil>)'' | Some m \<Rightarrow> m))"

text \<open>
  The loop over \<^verbatim>\<open>c.sinks\<close> at the end of \<^verbatim>\<open>collect\<close>. \<open>send i\<close> is what the \<open>i\<close>-th sink's
  \<^verbatim>\<open>Send\<close> returned, \<open>now i\<close> the formatted time read after it.
\<close>

fun send_sinks ::
  "(nat \<Rightarrow> string) \<Rightarrow> (nat \<Rightarrow> error) \<Rightarrow> nat \<Rightarrow> string list \<Rightarrow> (string \<times> error) list
   \<Rightarrow> (string \<times> error) list" where
  "send_sinks now send i [] se = se"
| "send_sinks now send i (n # ns) se =
     send_sinks now send (Suc i) ns (AList.update n (Errorf_sink (now i) (send i)) se)"

text \<open>
  The inputs of one \<^verbatim>\<open>collect\<close>: the clock, whether \<^verbatim>\<open>Engine.Collect\<close> returned metrics
  (not \<^verbatim>\<open>nil\<close>), the error it returned, and the results of the sinks.
\<close>

record collect_in =
  ci_now :: int
  ci_metrics :: bool
  ci_err :: error
  ci_sendNow :: "nat \<Rightarrow> string"
  ci_send :: "nat \<Rightarrow> error"

definition collect :: "string \<Rightarrow> collect_in \<Rightarrow> lpc \<Rightarrow> lpc" where
  "collect levelName ci c =
     (let c1 = (case ci_err ci of
                  Some m \<Rightarrow>
                    setErr (Some (m @ ''; see monitor status or event log for details''))
                      (ci_now ci) c
                | None \<Rightarrow> (setErr None (ci_now ci) c)\<lparr>c_lastCollectTs := ci_now ci\<rparr>)
      in if \<not> ci_metrics ci then c1
         else c1\<lparr>c_sinkErrors :=
                   send_sinks (ci_sendNow ci) (ci_send ci) 0 (c_sinks c1) (c_sinkErrors c1)\<rparr>)"

text \<open>Collections one after another (\<^verbatim>\<open>c.statsMux\<close> serialises their writes).\<close>

fun collects :: "(string \<times> collect_in) list \<Rightarrow> lpc \<Rightarrow> lpc" where
  "collects [] c = c"
| "collects ((lv, ci) # ps) c = collects ps (collect lv ci c)"

text \<open>\<^verbatim>\<open>proto.MonitorCollectorStatus\<close> and \<^verbatim>\<open>Status\<close>.\<close>

record MonitorCollectorStatus =
  State :: string
  Plan :: string
  Paused :: bool
  LastCollectTs :: int
  LastCollectError :: string
  LastCollectErrorTs :: "int option"
  SinkErrors :: "(string \<times> string) list"

text \<open>\<^verbatim>\<open>for sinkName, err := range c.sinkErrors\<close>: \<^verbatim>\<open>nil\<close> errors are skipped.\<close>

fun status_sinkErrors :: "(string \<times> error) list \<Rightarrow> (string \<times> string) list \<Rightarrow> (string \<times> string) list" where
  "status_sinkErrors [] acc = acc"
| "status_sinkErrors ((n, None) # se) acc = status_sinkErrors se acc"
| "status_sinkErrors ((n, Some m) # se) acc = status_sinkErrors se (AList.update n m acc)"

definition Status :: "lpc \<Rightarrow> MonitorCollectorStatus" where
  "Status c =
     (let sinkErrors = status_sinkErrors (c_sinkErrors c) []
      in \<lparr>State = c_state c, Plan = p_Name (c_plan c), Paused = c_paused c,
          LastCollectTs = c_lastCollectTs c,
          LastCollectError = (case c_lastCollectError c of None \<Rightarrow> [] | Some m \<Rightarrow> m),
          LastCollectErrorTs =
            (case c_lastCollectError c of None \<Rightarrow> None | Some m \<Rightarrow> Some (c_lastCollectErrorTs c)),
          SinkErrors = (if 0 < length sinkErrors then sinkErrors else [])\<rparr>)"

text \<open>
  What holds of \<^verbatim>\<open>c.sinkErrors\<close> at all times: it is a map (distinct keys), and every
  error in it is an error with a message that is not empty.
\<close>

definition sink_errors_ok :: "(string \<times> error) list \<Rightarrow> bool" where
  "sink_errors_ok se \<longleftrightarrow>
     distinct (map fst se) \<and> (\<forall>n e. map_of se n = Some e \<longrightarrow> (\<exists>m. e = Some m \<and> m \<noteq> []))"

subsection \<open>Level plan adjuster\<close>

text \<open>The states of \<^verbatim>\<open>blip\<close>: \<^verbatim>\<open>STATE_NONE = ""\<close> and the four states of an instance.\<close>

definition STATE_NONE :: string where
  "STATE_NONE = []"

definition STATE_OFFLINE :: string where
  "STATE_OFFLINE = ''offline''"

definition STATE_STANDBY :: string where
  "STATE_STANDBY = ''standby''"

definition STATE_READ_ONLY :: string where
  "STATE_READ_ONLY = ''read-only''"

definition STATE_ACTIVE :: string where
  "STATE_ACTIVE = ''active''"

text \<open>
  \<^verbatim>\<open>type state struct { state, plan string; ts time.Time }\<close> and
  \<^verbatim>\<open>type change struct { after time.Duration; plan string }\<close>. A \<^verbatim>\<open>time.Time\<close> is an \<open>int\<close> of
  nanoseconds since the zero time, so \<^verbatim>\<open>IsZero\<close> is \<open>ts = 0\<close>.
\<close>

record state =
  s_state :: string
  s_plan :: string
  s_ts :: int

record change =
  ch_after :: Duration
  ch_plan :: string

definition zeroState :: state where
  "zeroState = \<lparr>s_state = [], s_plan = [], s_ts = 0\<rparr>"

definition zeroChange :: change where
  "zeroChange = \<lparr>ch_after = 0, ch_plan = []\<rparr>"

text \<open>
  \<^verbatim>\<open>blip.ConfigPlanAdjuster\<close>: for each state the dwell time \<^verbatim>\<open>After\<close>, a duration string,
  and the plan. \<^verbatim>\<open>a.states\<close> is a map from state to \<^verbatim>\<open>change\<close>; reading a missing key gives
  the zero \<^verbatim>\<open>change\<close>, so it is a total function here.
\<close>

record ConfigStateChange =
  cfg_After :: string
  cfg_Plan :: string

record ConfigPlanAdjuster =
  cfg_Offline :: ConfigStateChange
  cfg_Standby :: ConfigStateChange
  cfg_ReadOnly :: ConfigStateChange
  cfg_Active :: ConfigStateChange

record adjuster =
  a_states :: "string \<Rightarrow> change"
  a_prev :: state
  a_curr :: state
  a_pending :: state
  a_first :: bool

text \<open>
  \<^verbatim>\<open>NewLevelAdjuster\<close>. \<open>parse\<close> stands for \<^verbatim>\<open>time.ParseDuration\<close> (the error is dropped
  by the code).
\<close>

definition NewLevelAdjuster :: "(string \<Rightarrow> Duration) \<Rightarrow> ConfigPlanAdjuster \<Rightarrow> adjuster" where
  "NewLevelAdjuster parse cfg =
     \<lparr>a_states = (\<lambda>k. zeroChange)
        (STATE_OFFLINE :=
           \<lparr>ch_after = parse (cfg_After (cfg_Offline cfg)), ch_plan = cfg_Plan (cfg_Offline cfg)\<rparr>,
         STATE_STANDBY :=
           \<lparr>ch_after = parse (cfg_After (cfg_Standby cfg)), ch_plan = cfg_Plan (cfg_Standby cfg)\<rparr>,
         STATE_READ_ONLY :=
           \<lparr>ch_after = parse (cfg_After (cfg_ReadOnly cfg)), ch_plan = cfg_Plan (cfg_ReadOnly cfg)\<rparr>,
         STATE_ACTIVE :=
           \<lparr>ch_after = parse (cfg_After (cfg_Active cfg)), ch_plan = cfg_Plan (cfg_Active cfg)\<rparr>),
      a_prev = zeroState,
      a_curr = zeroState\<lparr>s_state := STATE_OFFLINE\<rparr>,
      a_pending = zeroState,
      a_first = True\<rparr>"

text \<open>
  The calls the adjuster makes on its collector, and the events it sends.
  \<^verbatim>\<open>adjuster.changePlan\<close> pauses the collector when the plan name is empty.
\<close>

datatype lpc_call = LpcChangePlan string string | LpcPause

datatype lpa_event = STATE_CHANGE_ABORT string | STATE_CHANGE_END string | STATE_CHANGE_BEGIN string

definition adjuster_changePlan :: "string \<Rightarrow> string \<Rightarrow> lpc_call list" where
  "adjuster_changePlan st planName =
     (if planName = [] then [LpcPause] else [LpcChangePlan st planName])"

text \<open>
  \<^verbatim>\<open>CheckState\<close>. \<open>now\<close> is \<^verbatim>\<open>Now()\<close> and \<open>obsv\<close> the state that \<^verbatim>\<open>a.state()\<close> probed. The
  result is the new adjuster, the calls made on the collector and the events sent.
\<close>

definition CheckState ::
  "int \<Rightarrow> string \<Rightarrow> adjuster \<Rightarrow> adjuster \<times> lpc_call list \<times> lpa_event list" where
  "CheckState now obsv a =
     (if obsv = s_state (a_curr a) then
        (if s_ts (a_pending a) \<noteq> 0
         then (a\<lparr>a_pending := (a_pending a)\<lparr>s_ts := 0, s_state := STATE_NONE\<rparr>\<rparr>,
               [], [STATE_CHANGE_ABORT obsv])
         else (a, [], []))
      else if obsv = s_state (a_pending a) then
        (if now - s_ts (a_pending a) < ch_after (a_states a (s_state (a_pending a)))
         then (a, [], [])
         else (a\<lparr>a_prev := a_curr a,
                 a_curr := a_pending a,
                 a_pending := (a_pending a)\<lparr>s_ts := 0, s_state := STATE_NONE\<rparr>\<rparr>,
               adjuster_changePlan (s_state (a_pending a)) (s_plan (a_pending a)),
               [STATE_CHANGE_END obsv]))
      else if a_first a \<and> s_state (a_curr a) = STATE_OFFLINE then
        (a\<lparr>a_first := False,
           a_prev := a_curr a,
           a_curr := zeroState\<lparr>s_state := obsv, s_ts := now\<rparr>\<rparr>,
         adjuster_changePlan obsv (ch_plan (a_states a obsv)),
         [STATE_CHANGE_END obsv])
      else
        (a\<lparr>a_pending := (a_pending a)\<lparr>s_state := obsv, s_ts := now,
                                       s_plan := ch_plan (a_states a obsv)\<rparr>\<rparr>,
         [], [STATE_CHANGE_BEGIN obsv]))"

text \<open>
  A run of checks: each observation is the time of the check and the state probed; the
  result lists, check by check, the calls made on the collector.
\<close>

fun check_states :: "(int \<times> string) list \<Rightarrow> adjuster \<Rightarrow> lpc_call list list" where
  "check_states [] a = []"
| "check_states ((now, obsv) # os) a =
     (case CheckState now obsv a of (a', calls, evs) \<Rightarrow> calls # check_states os a')"

subsection \<open>Plan loader\<close>

text \<open>\<^verbatim>\<open>planMeta\<close>, \<^verbatim>\<open>proto.PlanLoaded\<close> and the two repositories of the plan \<^verbatim>\<open>Loader\<close>.\<close>

record planMeta =
  pm_name :: string
  pm_source :: string
  pm_shared :: bool
  pm_plan :: Plan

record PlanLoaded =
  pld_Name :: string
  pld_Source :: string

record plan_Loader =
  pl_sharedPlans :: "planMeta list"
  pl_monitorPlans :: "(string \<times> planMeta list) list"

text \<open>\<^verbatim>\<open>pl.monitorPlans[monitorId]\<close>: the \<^verbatim>\<open>nil\<close> slice when the monitor has no plans.\<close>

definition monitorPlans :: "plan_Loader \<Rightarrow> string \<Rightarrow> planMeta list" where
  "monitorPlans pl monitorId =
     (case map_of (pl_monitorPlans pl) monitorId of None \<Rightarrow> [] | Some pms \<Rightarrow> pms)"

text \<open>
  The second loop of \<^verbatim>\<open>PlansLoaded\<close>, over the indexes of the monitor's plans: entry \<open>i\<close>
  is read from \<^verbatim>\<open>pl.sharedPlans[i]\<close>, which panics when \<open>i\<close> is out of range.
\<close>

fun monitor_loaded :: "planMeta list \<Rightarrow> nat list \<Rightarrow> panic + PlanLoaded list" where
  "monitor_loaded shared [] = Inr []"
| "monitor_loaded shared (i # is) =
     (if i < length shared
      then (case monitor_loaded shared is of
              Inl e \<Rightarrow> Inl e
            | Inr ls \<Rightarrow>
                Inr (\<lparr>pld_Name = pm_name (shared ! i), pld_Source = pm_source (shared ! i)\<rparr> # ls))
      else Inl IndexOutOfRange)"

definition PlansLoaded :: "plan_Loader \<Rightarrow> string \<Rightarrow> panic + PlanLoaded list" where
  "PlansLoaded pl monitorId =
     (if monitorId = []
      then Inr (map (\<lambda>pm. \<lparr>pld_Name = pm_name pm, pld_Source = pm_source pm\<rparr>) (pl_sharedPlans pl))
      else monitor_loaded (pl_sharedPlans pl) [0..<length (monitorPlans pl monitorId)])"

text \<open>What the claim asks of a monitor's plans: one entry for each, from the plan itself.\<close>

definition own_plans_loaded :: "plan_Loader \<Rightarrow> string \<Rightarrow> PlanLoaded list" where
  "own_plans_loaded pl monitorId =
     map (\<lambda>pm. \<lparr>pld_Name = pm_name pm, pld_Source = pm_source pm\<rparr>) (monitorPlans pl monitorId)"

subsection \<open>The collector of domain size.data\<close>

definition DOMAIN :: string where
  "DOMAIN = ''size.data''"

definition OPT_TOTAL :: string where
  "OPT_TOTAL = ''total''"

text \<open>\<^verbatim>\<open>Data\<close>: the query and the total flag of each level, two maps keyed on level name.\<close>

record Data =
  dt_query :: "(string \<times> string) list"
  dt_total :: "(string \<times> bool) list"

definition NewData :: Data where
  "NewData = \<lparr>dt_query = [], dt_total = []\<rparr>"

text \<open>\<^verbatim>\<open>dom.Options[key]\<close>: the empty string when the option is not set.\<close>

definition getOption :: "(string \<times> string) list \<Rightarrow> string \<Rightarrow> string" where
  "getOption opts k = (case map_of opts k of None \<Rightarrow> [] | Some v \<Rightarrow> v)"

text \<open>
  \<^verbatim>\<open>Data.Prepare\<close>, the loop over \<^verbatim>\<open>plan.Levels\<close>. \<open>dsq\<close> stands for \<^verbatim>\<open>DataSizeQuery\<close> applied to
  the options and \<^verbatim>\<open>c.Help()\<close>: it returns the query (\<open>Inr\<close>) or an error (\<open>Inl\<close>). The
  result is the returned error and the collector as the call leaves it.
\<close>

fun Prepare_levels ::
  "((string \<times> string) list \<Rightarrow> string + string) \<Rightarrow> (string \<times> Level) list \<Rightarrow> Data \<Rightarrow> error \<times> Data" where
  "Prepare_levels dsq [] c = (None, c)"
| "Prepare_levels dsq ((k, lvl) # ls) c =
     (case getDomain lvl DOMAIN of
        None \<Rightarrow> Prepare_levels dsq ls c
      | Some dm \<Rightarrow>
          (case dsq (d_Options dm) of
             Inl err \<Rightarrow> (Some err, c)
           | Inr q \<Rightarrow>
               (let c1 = c\<lparr>dt_query := AList.update (l_Name lvl) q (dt_query c)\<rparr>;
                    c2 = (if getOption (d_Options dm) OPT_TOTAL = ''yse''
                          then c1\<lparr>dt_total := AList.update (l_Name lvl) True (dt_total c1)\<rparr>
                          else c1)
                in Prepare_levels dsq ls c2)))"

definition Prepare :: "((string \<times> string) list \<Rightarrow> string + string) \<Rightarrow> Plan \<Rightarrow> Data \<Rightarrow> error \<times> Data" where
  "Prepare dsq plan c = Prepare_levels dsq (p_Levels plan) c"

text \<open>\<^verbatim>\<open>c.total[levelName]\<close>, as \<^verbatim>\<open>Collect\<close> reads it: false when the level has no entry.\<close>

definition total_at :: "Data \<Rightarrow> string \<Rightarrow> bool" where
  "total_at c levelName = (case map_of (dt_total c) levelName of None \<Rightarrow> False | Some b \<Rightarrow> b)"

subsection \<open>Monitor loader\<close>

text \<open>
  A monitor configuration is its \<^verbatim>\<open>MonitorId\<close> and the rest of its content. \<^verbatim>\<open>Changes\<close>
  compares the SHA-256 hashes of the \<^verbatim>\<open>%v\<close> texts of two configurations; the model
  compares the configurations (equal configurations have equal hashes, and hashes of
  different texts are taken to differ). A \<^verbatim>\<open>Monitor\<close> is known by its configuration.
\<close>

record ConfigMonitor =
  cm_MonitorId :: string
  cm_content :: string

record Monitor =
  m_config :: ConfigMonitor

record loadedMonitor =
  lm_monitor :: Monitor
  lm_started :: bool

record Changes =
  Added :: "Monitor list"
  Removed :: "Monitor list"
  Changed :: "Monitor list"
  Invalid :: "string list"

text \<open>
  The monitor \<^verbatim>\<open>Loader\<close>: \<^verbatim>\<open>dbmon\<close> is the map of loaded monitors keyed on monitor id;
  \<^verbatim>\<open>stopLossPercent\<close> is a \<^verbatim>\<open>float64\<close>, modelled by a rational (the counts are small
  integers and the comparisons below are far from any rounding).
\<close>

record Loader =
  ml_dbmon :: "(string \<times> loadedMonitor) list"
  ml_stopLossPercent :: rat
  ml_stopLossNumber :: nat

text \<open>
  The end of \<^verbatim>\<open>Loader.Changes\<close>, once the sources are merged into the map \<open>all\<close>: the
  monitors that are loaded and no longer configured are removed; a configured monitor
  that is not loaded is added; one that is loaded with another configuration is changed
  and added anew. \<open>mk\<close> stands for \<^verbatim>\<open>makeMonitor\<close>, which fails when a sink cannot be made.
\<close>

fun changes_loop ::
  "(ConfigMonitor \<Rightarrow> string + Monitor) \<Rightarrow> (string \<times> loadedMonitor) list
   \<Rightarrow> (string \<times> ConfigMonitor) list \<Rightarrow> Changes \<Rightarrow> string + Changes" where
  "changes_loop mk dbmon [] ch = Inr ch"
| "changes_loop mk dbmon ((monitorId, cfg) # rest) ch =
     (case map_of dbmon monitorId of
        None \<Rightarrow>
          (case mk cfg of
             Inl err \<Rightarrow> Inl err
           | Inr newMonitor \<Rightarrow> changes_loop mk dbmon rest (ch\<lparr>Added := Added ch @ [newMonitor]\<rparr>))
      | Some existingMonitor \<Rightarrow>
          if cfg = m_config (lm_monitor existingMonitor) then changes_loop mk dbmon rest ch
          else
            (case mk cfg of
               Inl err \<Rightarrow> Inl err
             | Inr newMonitor \<Rightarrow>
                 changes_loop mk dbmon rest
                   (ch\<lparr>Changed := Changed ch @ [lm_monitor existingMonitor],
                       Added := Added ch @ [newMonitor]\<rparr>)))"

definition Loader_Changes ::
  "(ConfigMonitor \<Rightarrow> string + Monitor) \<Rightarrow> (string \<times> ConfigMonitor) list \<Rightarrow> Loader
   \<Rightarrow> string + Changes" where
  "Loader_Changes mk all ml =
     changes_loop mk (ml_dbmon ml) all
       \<lparr>Added = [],
        Removed = map (\<lambda>(monitorId, loaded). lm_monitor loaded)
                    (filter (\<lambda>(monitorId, loaded). map_of all monitorId = None) (ml_dbmon ml)),
        Changed = [], Invalid = []\<rparr>"

definition MonitorId :: "Monitor \<Rightarrow> string" where
  "MonitorId mon = cm_MonitorId (m_config mon)"

text \<open>The three loops at the end of \<^verbatim>\<open>Load\<close> that bring \<^verbatim>\<open>ml.dbmon\<close> up to date.\<close>

definition apply_changes :: "Changes \<Rightarrow> (string \<times> loadedMonitor) list \<Rightarrow> (string \<times> loadedMonitor) list" where
  "apply_changes ch dbmon =
     fold (\<lambda>mon d. AList.update (MonitorId mon) \<lparr>lm_monitor = mon, lm_started = False\<rparr> d) (Added ch)
       (fold (\<lambda>mon d. AList.delete (MonitorId mon) d) (Changed ch)
          (fold (\<lambda>mon d. AList.delete (MonitorId mon) d) (Removed ch) dbmon))"

text \<open>
  What a call of \<^verbatim>\<open>Load\<close> did: the events it sent, the error it returned, the monitors
  it stopped, and the loader after it.
\<close>

record load_result =
  lr_events :: "string list"
  lr_err :: error
  lr_stopped :: "string list"
  lr_loader :: Loader

text \<open>
  The stop-loss check of \<^verbatim>\<open>Load\<close>: the error message, empty when the check lets the
  changes through. \<^verbatim>\<open>nNow\<close> is \<^verbatim>\<open>float64(len(changes.Removed))\<close>.
\<close>

definition stop_loss_errMsg :: "Loader \<Rightarrow> Changes \<Rightarrow> string" where
  "stop_loss_errMsg ml changes =
     (let nBefore = length (ml_dbmon ml);
          nNow = length (Removed changes)
      in if nNow < nBefore then
           (let errMsg1 =
                  (if 0 < ml_stopLossPercent ml \<and>
                      ml_stopLossPercent ml < (of_nat nBefore - of_nat nNow) / of_nat nBefore
                   then ''lost percent > limit'' else []);
                errMsg2 =
                  (if 0 < ml_stopLossNumber ml \<and> ml_stopLossNumber ml < nBefore - nNow
                   then ''lost number > limit'' else errMsg1)
            in errMsg2)
         else [])"

text \<open>
  \<^verbatim>\<open>Load\<close>. \<open>loaded\<close> is what the sources gave: an error, or the merged map \<open>all\<close> of the
  configured monitors.
\<close>

definition Load ::
  "(ConfigMonitor \<Rightarrow> string + Monitor) \<Rightarrow> string + (string \<times> ConfigMonitor) list \<Rightarrow> Loader
   \<Rightarrow> load_result" where
  "Load mk loaded ml =
     (case (case loaded of Inl err \<Rightarrow> Inl err | Inr all \<Rightarrow> Loader_Changes mk all ml) of
        Inl err \<Rightarrow>
          \<lparr>lr_events = [''MONITORS_LOADING'', ''MONITORS_LOADED''], lr_err = Some err,
           lr_stopped = [], lr_loader = ml\<rparr>
      | Inr changes \<Rightarrow>
          if stop_loss_errMsg ml changes \<noteq> [] then
            \<lparr>lr_events = [''MONITORS_LOADING'', ''MONITORS_STOPLOSS'', ''MONITORS_LOADED''],
             lr_err = None, lr_stopped = [], lr_loader = ml\<rparr>
          else
            \<lparr>lr_events = [''MONITORS_LOADING'', ''MONITORS_LOADED''], lr_err = None,
             lr_stopped = map MonitorId (Removed changes) @ map MonitorId (Changed changes),
             lr_loader = ml\<lparr>ml_dbmon := apply_changes changes (ml_dbmon ml)\<rparr>\<rparr>)"

subsection \<open>Concrete inputs\<close>

text \<open>
  An adjuster configuration with a dwell of two seconds for read-only, and a duration
  parser that agrees with \<^verbatim>\<open>time.ParseDuration\<close> on the strings of that configuration.
\<close>

definition example_parse :: "string \<Rightarrow> Duration" where
  "example_parse x = (if x = ''2s'' then 2 * Second else 0)"

definition example_adjust :: ConfigPlanAdjuster where
  "example_adjust =
     \<lparr>cfg_Offline = \<lparr>cfg_After = ''0s'', cfg_Plan = []\<rparr>,
      cfg_Standby = \<lparr>cfg_After = ''0s'', cfg_Plan = []\<rparr>,
      cfg_ReadOnly = \<lparr>cfg_After = ''2s'', cfg_Plan = ''ro-plan''\<rparr>,
      cfg_Active = \<lparr>cfg_After = ''0s'', cfg_Plan = ''active-plan''\<rparr>\<rparr>"

text \<open>
  A plan loader with one shared plan, a monitor with one plan of its own and a monitor
  with two; and a plan whose level collects \<^verbatim>\<open>size.data\<close> with \<^verbatim>\<open>total: yes\<close>.
\<close>

definition example_plans :: plan_Loader where
  "example_plans =
     \<lparr>pl_sharedPlans =
        [\<lparr>pm_name = ''default.yaml'', pm_source = ''/etc/blip/default.yaml'',
          pm_shared = False, pm_plan = zeroPlan\<rparr>],
      pl_monitorPlans =
        [(''db1'', [\<lparr>pm_name = ''db1.yaml'', pm_source = ''/etc/blip/db1.yaml'',
                     pm_shared = False, pm_plan = zeroPlan\<rparr>]),
         (''db2'', [\<lparr>pm_name = ''a.yaml'', pm_source = ''/etc/blip/a.yaml'',
                     pm_shared = False, pm_plan = zeroPlan\<rparr>,
                   \<lparr>pm_name = ''b.yaml'', pm_source = ''/etc/blip/b.yaml'',
                     pm_shared = False, pm_plan = zeroPlan\<rparr>])]\<rparr>"

definition example_size_plan :: Plan where
  "example_size_plan =
     \<lparr>p_Name = ''size.yaml'',
      p_Levels =
        [(''sizes'',
          \<lparr>l_Name = ''sizes'', l_Freq = ''60s'',
           l_Collect = Some [(''size.data'',
             \<lparr>d_Name = ''size.data'', d_Options = [(''total'', ''yes'')], d_Metrics = []\<rparr>)]\<rparr>)],
      p_MonitorId = ''db1''\<rparr>"

text \<open>
  A loader with ten monitors loaded, \<^verbatim>\<open>db0\<close> to \<^verbatim>\<open>db9\<close>, and sources that now configure
  only the first four of them, unchanged; \<^verbatim>\<open>makeMonitor\<close> that never fails.
\<close>

definition example_monitor :: "string \<Rightarrow> Monitor" where
  "example_monitor monitorId =
     \<lparr>m_config = \<lparr>cm_MonitorId = monitorId, cm_content = ''hostname: '' @ monitorId\<rparr>\<rparr>"

definition example_makeMonitor :: "ConfigMonitor \<Rightarrow> string + Monitor" where
  "example_makeMonitor cfg = Inr \<lparr>m_config = cfg\<rparr>"

definition example_ids :: "string list" where
  "example_ids = [''db0'', ''db1'', ''db2'', ''db3'', ''db4'', ''db5'', ''db6'', ''db7'', ''db8'', ''db9'']"

definition example_loader :: "rat \<Rightarrow> nat \<Rightarrow> Loader" where
  "example_loader stopLossPercent stopLossNumber =
     \<lparr>ml_dbmon = map (\<lambda>i. (i, \<lparr>lm_monitor = example_monitor i, lm_started = True\<rparr>)) example_ids,
      ml_stopLossPercent = stopLossPercent,
      ml_stopLossNumber = stopLossNumber\<rparr>"

definition example_all :: "(string \<times> ConfigMonitor) list" where
  "example_all = map (\<lambda>i. (i, m_config (example_monitor i))) (take 4 example_ids)"

definition example_removed :: Changes where
  "example_removed =
     \<lparr>Added = [], Removed = map example_monitor (drop 4 example_ids), Changed = [], Invalid = []\<rparr>"

text \<open>
  A plan of two levels, \<^verbatim>\<open>fast\<close> every second collecting \<^verbatim>\<open>status.global\<close> and \<^verbatim>\<open>slow\<close> every
  five seconds collecting \<^verbatim>\<open>size.data\<close>, with a reading of the two freq strings; the plan
  as \<^verbatim>\<open>sortedLevels\<close> leaves it when called once, and when called once more.
\<close>

definition example_secs :: "string \<Rightarrow> int" where
  "example_secs f = (if f = ''1s'' then 1 else if f = ''5s'' then 5 else 0)"

definition example_domain :: "string \<Rightarrow> string list \<Rightarrow> string \<times> Domain" where
  "example_domain d ms = (d, \<lparr>d_Name = d, d_Options = [], d_Metrics = ms\<rparr>)"

definition example_level :: "string \<Rightarrow> string \<Rightarrow> (string \<times> Domain) list \<Rightarrow> string \<times> Level" where
  "example_level n f cm = (n, \<lparr>l_Name = n, l_Freq = f, l_Collect = Some cm\<rparr>)"

definition example_plan :: Plan where
  "example_plan =
     \<lparr>p_Name = ''plan.yaml'',
      p_Levels =
        [example_level ''slow'' ''5s'' [example_domain ''size.data'' [''bytes'']],
         example_level ''fast'' ''1s'' [example_domain ''status.global'' [''queries'']]],
      p_MonitorId = ''db1''\<rparr>"

definition example_once :: Plan where
  "example_once =
     \<lparr>p_Name = ''plan.yaml'',
      p_Levels =
        [example_level ''slow'' ''5s''
           [example_domain ''size.data'' [''bytes''],
            example_domain ''status.global'' [''queries'']],
         example_level ''fast'' ''1s'' [example_domain ''status.global'' [''queries'']]],
      p_MonitorId = ''db1''\<rparr>"

definition example_twice :: Plan where
  "example_twice =
     \<lparr>p_Name = ''plan.yaml'',
      p_Levels =
        [example_level ''slow'' ''5s''
           [example_domain ''size.data'' [''bytes''],
            example_domain ''status.global'' [''queries'', ''queries'']],
         example_level ''fast'' ''1s'' [example_domain ''status.global'' [''queries'']]],
      p_MonitorId = ''db1''\<rparr>"

definition example_levels :: "level list" where
  "example_levels = [\<lparr>lv_freq = 1, lv_name = ''fast''\<rparr>, \<lparr>lv_freq = 5, lv_name = ''slow''\<rparr>]"



section \<open>Theorems\<close>

subsection \<open>Heartbeat writer\<close>

lemma sleeps_append: "sleeps (xs @ ys) = sleeps xs @ sleeps ys"
  by (induction xs rule: sleeps.induct) simp_all

lemma sleeps_write_cycle: "sleeps (write_cycle w r) = cycle_sleeps (w_freq w) r"
  by (cases r) (simp_all add: write_cycle_def cycle_sleeps_def ReadOnlyWait_def)

text \<open>
  Claim C7. In the steady-state loop of the heartbeat writer every pass sleeps \<open>freq\<close>
  first; a pass whose UPDATE fails with a read-only error then sleeps the read-only wait
  of 20 seconds, which is not the 10 seconds of the init wait; a pass whose UPDATE fails
  with any other error, or succeeds, adds no sleep, and the loop goes on with the next
  pass at \<open>freq\<close>.
\<close>

theorem write_steady_sleeps:
  "sleeps (write_steady w ins) = concat (map (cycle_sleeps (w_freq w)) (passes ins))
   \<and> write_steady w ((r, False) # ins) = write_cycle w r @ write_steady w ins
   \<and> sleeps (write_cycle w ExecReadOnly) = [w_freq w, ReadOnlyWait]
   \<and> sleeps (write_cycle w ExecError) = [w_freq w]
   \<and> sleeps (write_cycle w ExecOK) = [w_freq w]
   \<and> ReadOnlyWait = 20 * Second \<and> InitErrorWait = 10 * Second
   \<and> ReadOnlyWait \<noteq> InitErrorWait"
proof -
  have "sleeps (write_steady w ins) = concat (map (cycle_sleeps (w_freq w)) (passes ins))"
  proof (induction ins)
    case Nil
    show ?case by simp
  next
    case (Cons a ins)
    obtain r stop where a: "a = (r, stop)" by (cases a)
    show ?case
      using Cons.IH by (simp add: a sleeps_append sleeps_write_cycle)
  qed
  moreover have "sleeps (write_cycle w ExecReadOnly) = [w_freq w, ReadOnlyWait]"
    by (simp add: write_cycle_def)
  moreover have "sleeps (write_cycle w ExecError) = [w_freq w]"
    by (simp add: write_cycle_def)
  moreover have "sleeps (write_cycle w ExecOK) = [w_freq w]"
    by (simp add: write_cycle_def)
  moreover have "ReadOnlyWait \<noteq> InitErrorWait"
    by (simp add: ReadOnlyWait_def InitErrorWait_def Second_def)
  ultimately show ?thesis
    by (simp add: ReadOnlyWait_def InitErrorWait_def)
qed

subsection \<open>The run loop of the level plan collector\<close>

lemma smod_eq_0_iff_dvd: "b \<noteq> 0 \<Longrightarrow> ((a::int) smod b = 0) = (b dvd a)"
  by (auto simp: signed_modulo_int_def sgn_if dvd_eq_mod_eq_0 [symmetric] split: if_splits)

lemma lowest_level_none:
  "\<forall>l\<in>set ls. lv_freq l \<noteq> 0 \<Longrightarrow> \<forall>l\<in>set ls. \<not> lv_freq l dvd s \<Longrightarrow>
   lowest_level s ls i lvl = Inr lvl"
  by (induction ls arbitrary: i lvl) (simp_all add: smod_eq_0_iff_dvd)

lemma lowest_level_some:
  "\<forall>l\<in>set ls. lv_freq l \<noteq> 0 \<Longrightarrow> \<exists>l\<in>set ls. lv_freq l dvd s \<Longrightarrow>
   \<exists>k<length ls. lowest_level s ls i lvl = Inr (i + int k) \<and> lv_freq (ls ! k) dvd s \<and>
      (\<forall>j. k < j \<and> j < length ls \<longrightarrow> \<not> lv_freq (ls ! j) dvd s)"
proof (induction ls arbitrary: i lvl)
  case Nil
  then show ?case by simp
next
  case (Cons l ls)
  let ?lvl = "if s smod lv_freq l = 0 then i else lvl"
  have nz: "lv_freq l \<noteq> 0" and nzs: "\<forall>l\<in>set ls. lv_freq l \<noteq> 0"
    using Cons.prems(1) by simp_all
  show ?case
  proof (cases "\<exists>l\<in>set ls. lv_freq l dvd s")
    case True
    from Cons.IH [OF nzs True, of "i + 1" ?lvl]
    obtain k where k: "k < length ls" "lowest_level s ls (i + 1) ?lvl = Inr (i + 1 + int k)"
      "lv_freq (ls ! k) dvd s" "\<forall>j. k < j \<and> j < length ls \<longrightarrow> \<not> lv_freq (ls ! j) dvd s"
      by blast
    have "\<forall>j. Suc k < j \<and> j < length (l # ls) \<longrightarrow> \<not> lv_freq ((l # ls) ! j) dvd s"
    proof (intro allI impI)
      fix j assume j: "Suc k < j \<and> j < length (l # ls)"
      then obtain j' where "j = Suc j'" by (cases j) auto
      with j k(4) show "\<not> lv_freq ((l # ls) ! j) dvd s" by simp
    qed
    with k nz show ?thesis
      by (intro exI [of _ "Suc k"]) simp
  next
    case False
    then have none: "\<forall>l\<in>set ls. \<not> lv_freq l dvd s" by blast
    with Cons.prems(2) have d: "lv_freq l dvd s" by simp
    have "lowest_level s ls (i + 1) ?lvl = Inr ?lvl"
      by (rule lowest_level_none [OF nzs none])
    moreover have "\<forall>j. 0 < j \<and> j < length (l # ls) \<longrightarrow> \<not> lv_freq ((l # ls) ! j) dvd s"
    proof (intro allI impI)
      fix j assume j: "0 < j \<and> j < length (l # ls)"
      then obtain j' where "j = Suc j'" by (cases j) auto
      with j none show "\<not> lv_freq ((l # ls) ! j) dvd s" by simp
    qed
    ultimately show ?thesis
      using nz d by (intro exI [of _ 0]) (simp add: smod_eq_0_iff_dvd)
  qed
qed


text \<open>\<^verbatim>\<open>level\<close> is \<open>-1\<close> again after every pass of the loop.\<close>

lemma tick_level:
  assumes "r_level r = - 1" and "tick stop now c r = Inr (e, c', r')"
  shows "r_level r' = - 1"
proof (cases "stop \<or> c_paused c")
  case True
  with assms show ?thesis
    by (auto simp: tick_def Let_def split: if_splits)
next
  case False
  with assms(2) obtain lvl where "lowest_level (r_s r + 1) (c_levels c) 0 (r_level r) = Inr lvl"
    by (cases "lowest_level (r_s r + 1) (c_levels c) 0 (r_level r)") (simp_all add: tick_def Let_def)
  with assms False show ?thesis
    by (auto simp: tick_def Let_def split: if_splits)
qed

text \<open>
  Claim C1. On a tick of \<^verbatim>\<open>Run\<close> that finds the collector neither stopped nor paused,
  with \<open>s\<close> the tick counter after its increment: if the \<^verbatim>\<open>freq\<close> of some sorted level
  divides \<open>s\<close>, the tick selects exactly one level, the one at the greatest index whose
  \<^verbatim>\<open>freq\<close> divides \<open>s\<close> (its collection is launched when a collector slot is free, and
  recorded as blocked otherwise); if no \<^verbatim>\<open>freq\<close> divides \<open>s\<close>, the tick launches nothing.
  The levels have a \<^verbatim>\<open>freq\<close> other than zero (the data model asks for one second at
  least), and \<^verbatim>\<open>level\<close> is \<open>-1\<close> at the top of the loop, as \<^verbatim>\<open>Run\<close> leaves it.
\<close>

theorem tick_selects_highest_due_level:
  assumes "\<not> c_paused c" and "\<forall>l\<in>set (c_levels c). lv_freq l \<noteq> 0" and "r_level r = - 1"
  shows
   "(if \<exists>k<length (c_levels c). lv_freq (c_levels c ! k) dvd (r_s r + 1)
     then \<exists>k<length (c_levels c).
            lv_freq (c_levels c ! k) dvd (r_s r + 1) \<and>
            (\<forall>j. k < j \<and> j < length (c_levels c) \<longrightarrow> \<not> lv_freq (c_levels c ! j) dvd (r_s r + 1)) \<and>
            tick False now c r =
              Inr (if 0 < r_sem r
                   then (Launch (lv_name (c_levels c ! k)), c,
                         r\<lparr>r_s := r_s r + 1, r_levelName := lv_name (c_levels c ! k),
                           r_sem := r_sem r - 1\<rparr>)
                   else (Blocked (lv_name (c_levels c ! k)),
                         setErr (Some (blocked_errMsg c (lv_name (c_levels c ! k)))) now c,
                         r\<lparr>r_s := r_s r + 1, r_levelName := lv_name (c_levels c ! k)\<rparr>))
     else tick False now c r = Inr (SkipNoLevel, c, r\<lparr>r_s := r_s r + 1\<rparr>))"
proof (cases "\<exists>k<length (c_levels c). lv_freq (c_levels c ! k) dvd (r_s r + 1)")
  case True
  then have "\<exists>l\<in>set (c_levels c). lv_freq l dvd (r_s r + 1)"
    using nth_mem by blast
  from lowest_level_some [OF assms(2) this, of 0 "- 1"]
  obtain k where k: "k < length (c_levels c)"
      "lowest_level (r_s r + 1) (c_levels c) 0 (- 1) = Inr (int k)"
      "lv_freq (c_levels c ! k) dvd (r_s r + 1)"
      "\<forall>j. k < j \<and> j < length (c_levels c) \<longrightarrow> \<not> lv_freq (c_levels c ! j) dvd (r_s r + 1)"
    by auto
  have "tick False now c r =
          Inr (if 0 < r_sem r
               then (Launch (lv_name (c_levels c ! k)), c,
                     r\<lparr>r_s := r_s r + 1, r_levelName := lv_name (c_levels c ! k),
                       r_sem := r_sem r - 1\<rparr>)
               else (Blocked (lv_name (c_levels c ! k)),
                     setErr (Some (blocked_errMsg c (lv_name (c_levels c ! k)))) now c,
                     r\<lparr>r_s := r_s r + 1, r_levelName := lv_name (c_levels c ! k)\<rparr>))"
    using assms(1,3) k(1,2) by (simp add: tick_def Let_def)
  with k(1,3,4) True show ?thesis by auto
next
  case False
  then have "\<forall>l\<in>set (c_levels c). \<not> lv_freq l dvd (r_s r + 1)"
    by (auto simp: in_set_conv_nth)
  from lowest_level_none [OF assms(2) this, of 0 "- 1"]
  have "tick False now c r = Inr (SkipNoLevel, c, r\<lparr>r_s := r_s r + 1\<rparr>)"
    using assms(1,3) by (simp add: tick_def Let_def)
  then show ?thesis by (subst if_not_P [OF False])
qed

theorem tick_selects_highest_due_level_witness:
  "tick False 0 (after ''active'' zeroPlan
       [\<lparr>lv_freq = 1, lv_name = ''fast''\<rparr>, \<lparr>lv_freq = 5, lv_name = ''slow''\<rparr>]
       (NewLevelCollector ''m'' [])) (run_init\<lparr>r_s := 4\<rparr>)
   = Inr (Launch ''slow'',
          after ''active'' zeroPlan
            [\<lparr>lv_freq = 1, lv_name = ''fast''\<rparr>, \<lparr>lv_freq = 5, lv_name = ''slow''\<rparr>]
            (NewLevelCollector ''m'' []),
          run_init\<lparr>r_s := 5, r_levelName := ''slow'', r_sem := 1\<rparr>)"
proof -
  let ?ls = "[\<lparr>lv_freq = 1, lv_name = ''fast''\<rparr>, \<lparr>lv_freq = 5, lv_name = ''slow''\<rparr>]"
  let ?c = "after ''active'' zeroPlan ?ls (NewLevelCollector ''m'' [])"
  let ?r = "run_init\<lparr>r_s := 4\<rparr>"
  have ls: "c_levels ?c = ?ls" and np: "\<not> c_paused ?c"
    by (simp_all add: after_def NewLevelCollector_def)
  have nz: "\<forall>l\<in>set (c_levels ?c). lv_freq l \<noteq> 0"
    by (simp add: ls)
  have l1: "r_level ?r = - 1" and s1: "r_s ?r + 1 = 5" and sem: "r_sem ?r = 2"
    by (simp_all add: run_init_def maxCollectors_def)
  have ex: "\<exists>k<length (c_levels ?c). lv_freq (c_levels ?c ! k) dvd (r_s ?r + 1)"
    unfolding ls s1 by (intro exI [of _ 1]) simp
  from tick_selects_highest_due_level [OF np nz l1, of 0]
  have "\<exists>k<length (c_levels ?c).
            lv_freq (c_levels ?c ! k) dvd (r_s ?r + 1) \<and>
            (\<forall>j. k < j \<and> j < length (c_levels ?c) \<longrightarrow> \<not> lv_freq (c_levels ?c ! j) dvd (r_s ?r + 1)) \<and>
            tick False 0 ?c ?r =
              Inr (if 0 < r_sem ?r
                   then (Launch (lv_name (c_levels ?c ! k)), ?c,
                         ?r\<lparr>r_s := r_s ?r + 1, r_levelName := lv_name (c_levels ?c ! k),
                           r_sem := r_sem ?r - 1\<rparr>)
                   else (Blocked (lv_name (c_levels ?c ! k)),
                         setErr (Some (blocked_errMsg ?c (lv_name (c_levels ?c ! k)))) 0 ?c,
                         ?r\<lparr>r_s := r_s ?r + 1, r_levelName := lv_name (c_levels ?c ! k)\<rparr>))"
    by (simp only: ex if_True)
  then obtain k where k: "k < length ?ls"
      "\<forall>j. k < j \<and> j < length ?ls \<longrightarrow> \<not> lv_freq (?ls ! j) dvd (5::int)"
      "tick False 0 ?c ?r =
         Inr (Launch (lv_name (?ls ! k)), ?c,
              ?r\<lparr>r_s := 5, r_levelName := lv_name (?ls ! k), r_sem := 1\<rparr>)"
    unfolding ls s1 sem by auto
  have "k = 1"
  proof (rule ccontr)
    assume "k \<noteq> 1"
    with k(1) have "k = 0" by simp
    with k(2) [rule_format, of 1] have "\<not> lv_freq (?ls ! 1) dvd (5::int)" by simp
    then show False by simp
  qed
  with k(3) show ?thesis by (simp add: run_init_def)
qed

lemma lowest_level_zero:
  "\<forall>l\<in>set ls. lv_freq l \<noteq> 0 \<Longrightarrow>
   lowest_level 0 ls i lvl = Inr (if ls = [] then lvl else i + int (length ls) - 1)"
  by (induction ls arbitrary: i lvl) (simp_all add: signed_modulo_int_def)

lemma tick_paused: "c_paused c \<Longrightarrow> tick False now c r = Inr (SkipPaused, c, r\<lparr>r_s := - 1\<rparr>)"
  by (simp add: tick_def Let_def)

lemma run_steps_paused_ticks:
  "c_paused c \<Longrightarrow> 0 < n \<or> r_s r = - 1 \<Longrightarrow>
   run_steps (replicate n Tick @ ss) c r =
     (case run_steps ss c (r\<lparr>r_s := - 1\<rparr>) of
        Inl p \<Rightarrow> Inl p
      | Inr (es, c', r') \<Rightarrow> Inr (replicate n SkipPaused @ es, c', r'))"
proof (induction n arbitrary: r)
  case 0
  then have "r\<lparr>r_s := - 1\<rparr> = r" by simp
  then show ?case by (simp split: sum.splits)
next
  case (Suc n)
  have "run_steps (replicate n Tick @ ss) c (r\<lparr>r_s := - 1\<rparr>) =
     (case run_steps ss c (r\<lparr>r_s := - 1\<rparr>) of
        Inl p \<Rightarrow> Inl p
      | Inr (es, c', r') \<Rightarrow> Inr (replicate n SkipPaused @ es, c', r'))"
    using Suc.IH [of "r\<lparr>r_s := - 1\<rparr>"] Suc.prems(1) by simp
  then show ?case
    using Suc.prems(1) by (simp add: tick_paused split: sum.splits)
qed

lemma tick_after_commit:
  assumes "r_s r = - 1" and "r_level r = - 1" and "lv \<noteq> []" and "\<forall>l\<in>set lv. lv_freq l \<noteq> 0"
  shows "tick False now (after st pl lv c) r =
     Inr (if 0 < r_sem r
          then (Launch (lv_name (last lv)), after st pl lv c,
                r\<lparr>r_s := 0, r_levelName := lv_name (last lv), r_sem := r_sem r - 1\<rparr>)
          else (Blocked (lv_name (last lv)),
                setErr (Some (blocked_errMsg (after st pl lv c) (lv_name (last lv)))) now (after st pl lv c),
                r\<lparr>r_s := 0, r_levelName := lv_name (last lv)\<rparr>))"
proof -
  have n: "nat (int (length lv) - 1) = length lv - 1" by simp
  have "0 < length lv" using assms(3) by simp
  then show ?thesis
    using assms
    by (simp add: tick_def Let_def after_def lowest_level_zero last_conv_nth n)
qed

text \<open>
  Claim C4, as amended. While the collector is paused no tick launches a collection, and
  every tick leaves the counter \<open>s\<close> at \<open>-1\<close>, however many ticks go by. When at least one
  tick ran while paused (or no tick has counted yet, \<open>s = -1\<close>), the first tick after the
  commit callback runs with \<open>s = 0\<close>; when the new sorted levels are not empty and no
  \<^verbatim>\<open>freq\<close> is zero, every \<^verbatim>\<open>freq\<close> divides \<open>s\<close> and that tick selects the last level, whose
  collection is launched if a collector slot is free and recorded as blocked otherwise.
\<close>

theorem paused_ticks_then_commit:
  assumes "c_paused c" and "0 < n \<or> r_s r = - 1" and "r_level r = - 1"
    and "lv \<noteq> []" and "\<forall>l\<in>set lv. lv_freq l \<noteq> 0"
  shows "run_steps (replicate n Tick) c r = Inr (replicate n SkipPaused, c, r\<lparr>r_s := - 1\<rparr>) \<and>
   run_steps (replicate n Tick @ [Commit st pl lv, Tick]) c r =
     Inr (if 0 < r_sem r
          then (replicate n SkipPaused @ [Launch (lv_name (last lv))], after st pl lv c,
                r\<lparr>r_s := 0, r_levelName := lv_name (last lv), r_sem := r_sem r - 1\<rparr>)
          else (replicate n SkipPaused @ [Blocked (lv_name (last lv))],
                setErr (Some (blocked_errMsg (after st pl lv c) (lv_name (last lv)))) 0 (after st pl lv c),
                r\<lparr>r_s := 0, r_levelName := lv_name (last lv)\<rparr>))"
proof -
  have "tick False 0 (after st pl lv c) (r\<lparr>r_s := - 1\<rparr>) =
     Inr (if 0 < r_sem r
          then (Launch (lv_name (last lv)), after st pl lv c,
                r\<lparr>r_s := 0, r_levelName := lv_name (last lv), r_sem := r_sem r - 1\<rparr>)
          else (Blocked (lv_name (last lv)),
                setErr (Some (blocked_errMsg (after st pl lv c) (lv_name (last lv)))) 0 (after st pl lv c),
                r\<lparr>r_s := 0, r_levelName := lv_name (last lv)\<rparr>))"
    using tick_after_commit [of "r\<lparr>r_s := - 1\<rparr>" lv 0 st pl c] assms(3,4,5) by simp
  moreover have "run_steps (replicate n Tick) c r = Inr (replicate n SkipPaused, c, r\<lparr>r_s := - 1\<rparr>)"
    using run_steps_paused_ticks [OF assms(1,2), of "[]"] by simp
  ultimately show ?thesis
    by (simp add: run_steps_paused_ticks [OF assms(1,2)])
qed

text \<open>
  When \<^verbatim>\<open>Pause\<close> and the commit both fall between two ticks, no tick sees the pause and
  the counter is not reset: the first tick after the second commit below runs with
  \<open>s = 2\<close> and launches nothing.
\<close>

theorem commit_between_ticks_counterexample:
  "run_steps
     [Commit ''active'' zeroPlan [\<lparr>lv_freq = 5, lv_name = ''a''\<rparr>], Tick, Tick,
      CallPause, Commit ''active'' zeroPlan [\<lparr>lv_freq = 5, lv_name = ''a''\<rparr>], Tick]
     (NewLevelCollector ''m'' []) run_init
   = Inr ([Launch ''a'', SkipNoLevel, SkipNoLevel],
          after ''active'' zeroPlan [\<lparr>lv_freq = 5, lv_name = ''a''\<rparr>] (NewLevelCollector ''m'' []),
          run_init\<lparr>r_s := 2, r_levelName := ''a'', r_sem := 1\<rparr>)"
  by (simp add: tick_def after_def Pause_def NewLevelCollector_def run_init_def
      maxCollectors_def signed_modulo_int_def Let_def)

theorem paused_ticks_then_commit_witness:
  "run_steps [Tick, Tick, Tick] (NewLevelCollector ''m'' []) (run_init\<lparr>r_s := 7\<rparr>)
   = Inr ([SkipPaused, SkipPaused, SkipPaused], NewLevelCollector ''m'' [], run_init)
   \<and> run_steps
     [Tick, Tick, Tick, Commit ''active'' zeroPlan
        [\<lparr>lv_freq = 1, lv_name = ''fast''\<rparr>, \<lparr>lv_freq = 5, lv_name = ''slow''\<rparr>], Tick]
     (NewLevelCollector ''m'' []) (run_init\<lparr>r_s := 7\<rparr>)
   = Inr ([SkipPaused, SkipPaused, SkipPaused, Launch ''slow''],
          after ''active'' zeroPlan
            [\<lparr>lv_freq = 1, lv_name = ''fast''\<rparr>, \<lparr>lv_freq = 5, lv_name = ''slow''\<rparr>]
            (NewLevelCollector ''m'' []),
          run_init\<lparr>r_s := 0, r_levelName := ''slow'', r_sem := 1\<rparr>)"
proof -
  let ?lv = "[\<lparr>lv_freq = 1, lv_name = ''fast''\<rparr>, \<lparr>lv_freq = 5, lv_name = ''slow''\<rparr>]"
  have p: "c_paused (NewLevelCollector ''m'' [])"
    by (simp add: NewLevelCollector_def)
  have n: "0 < (3::nat) \<or> r_s (run_init\<lparr>r_s := 7\<rparr>) = - 1" by simp
  have l: "r_level (run_init\<lparr>r_s := 7\<rparr>) = - 1" by (simp add: run_init_def)
  have ne: "?lv \<noteq> []" and nz: "\<forall>l\<in>set ?lv. lv_freq l \<noteq> 0" by simp_all
  have r3: "replicate 3 Tick = [Tick, Tick, Tick]"
    and s3: "replicate 3 SkipPaused = [SkipPaused, SkipPaused, SkipPaused]"
    by (simp_all add: numeral_3_eq_3)
  show ?thesis
    using paused_ticks_then_commit [OF p n l ne nz, of "''active''" zeroPlan]
    by (simp add: r3 s3 run_init_def maxCollectors_def)
qed

subsection \<open>Sink errors\<close>

lemma Errorf_sink_msg: "\<exists>m. Errorf_sink now err = Some m \<and> m \<noteq> []"
  by (simp add: Errorf_sink_def)

lemma sink_errors_ok_update:
  "sink_errors_ok se \<Longrightarrow> sink_errors_ok (AList.update n (Errorf_sink now err) se)"
  unfolding sink_errors_ok_def
  using Errorf_sink_msg [of now err]
  by (auto simp: distinct_update update_conv')

lemma sink_errors_ok_send_sinks:
  "sink_errors_ok se \<Longrightarrow> sink_errors_ok (send_sinks now send i ns se)"
  by (induction ns arbitrary: i se) (simp_all add: sink_errors_ok_update)

lemma send_sinks_notin:
  "n \<notin> set ns \<Longrightarrow> map_of (send_sinks now send i ns se) n = map_of se n"
  by (induction ns arbitrary: i se) (simp_all add: update_conv')

lemma send_sinks_in:
  "n \<in> set ns \<Longrightarrow>
   \<exists>k<length ns. ns ! k = n \<and>
     map_of (send_sinks now send i ns se) n = Some (Errorf_sink (now (i + k)) (send (i + k)))"
proof (induction ns arbitrary: i se)
  case Nil
  then show ?case by simp
next
  case (Cons a ns)
  show ?case
  proof (cases "n \<in> set ns")
    case True
    from Cons.IH [OF True, of "Suc i" "AList.update a (Errorf_sink (now i) (send i)) se"]
    obtain k where "k < length ns" "ns ! k = n"
      "map_of (send_sinks now send (Suc i) ns (AList.update a (Errorf_sink (now i) (send i)) se)) n
        = Some (Errorf_sink (now (Suc i + k)) (send (Suc i + k)))"
      by blast
    then show ?thesis
      by (intro exI [of _ "Suc k"]) simp
  next
    case False
    with Cons.prems have "a = n" by simp
    with False show ?thesis
      by (intro exI [of _ 0]) (simp add: send_sinks_notin update_conv')
  qed
qed

lemma c_sinks_collect [simp]: "c_sinks (collect lv ci c) = c_sinks c"
  by (simp add: collect_def Let_def setErr_def split: option.splits)

lemma c_sinks_collects [simp]: "c_sinks (collects ps c) = c_sinks c"
  by (induction ps arbitrary: c) auto

lemma sink_errors_ok_collect:
  "sink_errors_ok (c_sinkErrors c) \<Longrightarrow> sink_errors_ok (c_sinkErrors (collect lv ci c))"
  by (simp add: collect_def Let_def setErr_def sink_errors_ok_send_sinks split: option.splits)

lemma sink_errors_ok_collects:
  "sink_errors_ok (c_sinkErrors c) \<Longrightarrow> sink_errors_ok (c_sinkErrors (collects ps c))"
  by (induction ps arbitrary: c) (auto simp: sink_errors_ok_collect)

lemma collect_keeps_entry:
  "map_of (c_sinkErrors c) n \<noteq> None \<Longrightarrow> map_of (c_sinkErrors (collect lv ci c)) n \<noteq> None"
proof (cases "ci_metrics ci \<and> n \<in> set (c_sinks c)")
  case True
  then show ?thesis
    using send_sinks_in [of n "c_sinks c" "ci_sendNow ci" "ci_send ci" 0 "c_sinkErrors c"]
    by (auto simp: collect_def Let_def setErr_def split: option.splits)
next
  case False
  assume "map_of (c_sinkErrors c) n \<noteq> None"
  with False show ?thesis
    by (auto simp: collect_def Let_def setErr_def send_sinks_notin split: option.splits)
qed

lemma collects_keeps_entry:
  "map_of (c_sinkErrors c) n \<noteq> None \<Longrightarrow> map_of (c_sinkErrors (collects ps c)) n \<noteq> None"
proof (induction ps arbitrary: c)
  case Nil
  then show ?case by simp
next
  case (Cons p ps)
  obtain lv ci where p: "p = (lv, ci)" by (cases p)
  have "map_of (c_sinkErrors (collect lv ci c)) n \<noteq> None"
    by (rule collect_keeps_entry [OF Cons.prems])
  then show ?case
    unfolding p by (simp only: collects.simps Cons.IH not_False_eq_True)
qed

lemma map_of_status_sinkErrors:
  "distinct (map fst se) \<Longrightarrow>
   map_of (status_sinkErrors se acc) n =
     (case map_of se n of Some (Some m) \<Rightarrow> Some m | Some None \<Rightarrow> map_of acc n | None \<Rightarrow> map_of acc n)"
proof (induction se acc rule: status_sinkErrors.induct)
  case (1 acc)
  show ?case by simp
next
  case (2 k se acc)
  then have "map_of se k = None"
    by (simp add: map_of_eq_None_iff)
  with 2 show ?case by simp
next
  case (3 k m se acc)
  then have "map_of se k = None"
    by (simp add: map_of_eq_None_iff)
  with 3 show ?case by (simp add: update_conv' split: option.splits)
qed

lemma Status_sink_error:
  assumes "sink_errors_ok (c_sinkErrors c)" and "map_of (c_sinkErrors c) n \<noteq> None"
  shows "\<exists>m. m \<noteq> [] \<and> map_of (c_sinkErrors c) n = Some (Some m)
    \<and> map_of (SinkErrors (Status c)) n = Some m"
proof -
  from assms(2) obtain e where e: "map_of (c_sinkErrors c) n = Some e" by auto
  with assms(1) obtain m where m: "e = Some m" "m \<noteq> []"
    unfolding sink_errors_ok_def by blast
  have d: "distinct (map fst (c_sinkErrors c))"
    using assms(1) by (simp add: sink_errors_ok_def)
  have "map_of (status_sinkErrors (c_sinkErrors c) []) n = Some m"
    by (simp add: map_of_status_sinkErrors [OF d] e m)
  moreover from this have "status_sinkErrors (c_sinkErrors c) [] \<noteq> []"
    by auto
  ultimately have "map_of (SinkErrors (Status c)) n = Some m"
    by (simp add: Status_def Let_def)
  with e m show ?thesis by simp
qed

text \<open>
  Claim C10. After a collection that got metrics, every sink of the collector has an
  entry in the per-sink error map that is the error made by \<^verbatim>\<open>fmt.Errorf\<close> from the result
  of a \<^verbatim>\<open>Send\<close> of that pass (of the last sink of that name); that error is never \<^verbatim>\<open>nil\<close>:
  its message is the time in brackets followed by \<^verbatim>\<open>%!s(<nil>)\<close> when \<^verbatim>\<open>Send\<close> returned
  \<^verbatim>\<open>nil\<close>, and by the message of the error when \<^verbatim>\<open>Send\<close> returned one. \<^verbatim>\<open>Status\<close> reports
  that very message for the sink right after the collection, and hence, after any
  further collections, it reports a message that is not empty for every sink sent to,
  whatever the sends returned.
\<close>

theorem sink_error_recorded_after_every_send:
  assumes "c = collects ps (NewLevelCollector mid sinks)"
    and "ci_metrics ci" and "i < length sinks"
  shows "\<exists>k<length sinks. sinks ! k = sinks ! i \<and>
           map_of (c_sinkErrors (collect lv ci c)) (sinks ! i)
             = Some (Errorf_sink (ci_sendNow ci k) (ci_send ci k))
           \<and> Errorf_sink (ci_sendNow ci k) (ci_send ci k) \<noteq> None
           \<and> (ci_send ci k = None \<longrightarrow>
                Errorf_sink (ci_sendNow ci k) (ci_send ci k)
                  = Some (''['' @ ci_sendNow ci k @ ''] %!s(<nil>)''))
           \<and> (\<forall>e. ci_send ci k = Some e \<longrightarrow>
                Errorf_sink (ci_sendNow ci k) (ci_send ci k)
                  = Some (''['' @ ci_sendNow ci k @ ''] '' @ e))
           \<and> map_of (SinkErrors (Status (collect lv ci c))) (sinks ! i)
                = Errorf_sink (ci_sendNow ci k) (ci_send ci k)
           \<and> (\<exists>m. m \<noteq> [] \<and>
                map_of (SinkErrors (Status (collects ps' (collect lv ci c)))) (sinks ! i) = Some m)"
proof -
  have sinks: "c_sinks c = sinks"
    by (simp add: assms(1) NewLevelCollector_def)
  have ok0: "sink_errors_ok (c_sinkErrors (NewLevelCollector mid sinks))"
    by (simp add: NewLevelCollector_def sink_errors_ok_def)
  have okc: "sink_errors_ok (c_sinkErrors c)"
    unfolding assms(1) by (rule sink_errors_ok_collects [OF ok0])
  have mem: "sinks ! i \<in> set sinks"
    using assms(3) by simp
  from send_sinks_in [OF mem, of "ci_sendNow ci" "ci_send ci" 0 "c_sinkErrors c"]
  obtain k where k: "k < length sinks" "sinks ! k = sinks ! i"
    "map_of (send_sinks (ci_sendNow ci) (ci_send ci) 0 sinks (c_sinkErrors c)) (sinks ! i)
       = Some (Errorf_sink (ci_sendNow ci k) (ci_send ci k))"
    by auto
  have entry: "map_of (c_sinkErrors (collect lv ci c)) (sinks ! i)
       = Some (Errorf_sink (ci_sendNow ci k) (ci_send ci k))"
    using k(3) assms(2) sinks
    by (simp add: collect_def Let_def setErr_def split: option.splits)
  have ok1: "sink_errors_ok (c_sinkErrors (collect lv ci c))"
    by (intro sink_errors_ok_collect okc)
  from entry have "map_of (c_sinkErrors (collect lv ci c)) (sinks ! i) \<noteq> None"
    by simp
  from Status_sink_error [OF ok1 this] obtain m1 where
    "map_of (c_sinkErrors (collect lv ci c)) (sinks ! i) = Some (Some m1)"
    "map_of (SinkErrors (Status (collect lv ci c))) (sinks ! i) = Some m1"
    by blast
  with entry have stat: "map_of (SinkErrors (Status (collect lv ci c))) (sinks ! i)
      = Errorf_sink (ci_sendNow ci k) (ci_send ci k)"
    by simp
  from entry have "map_of (c_sinkErrors (collects ps' (collect lv ci c))) (sinks ! i) \<noteq> None"
    by (intro collects_keeps_entry) simp
  moreover have "sink_errors_ok (c_sinkErrors (collects ps' (collect lv ci c)))"
    by (intro sink_errors_ok_collects ok1)
  ultimately obtain m where m: "m \<noteq> []"
    "map_of (SinkErrors (Status (collects ps' (collect lv ci c)))) (sinks ! i) = Some m"
    using Status_sink_error by blast
  have msg: "Errorf_sink (ci_sendNow ci k) (ci_send ci k) \<noteq> None"
    "ci_send ci k = None \<longrightarrow>
       Errorf_sink (ci_sendNow ci k) (ci_send ci k) = Some (''['' @ ci_sendNow ci k @ ''] %!s(<nil>)'')"
    "\<forall>e. ci_send ci k = Some e \<longrightarrow>
       Errorf_sink (ci_sendNow ci k) (ci_send ci k) = Some (''['' @ ci_sendNow ci k @ ''] '' @ e)"
    by (simp_all add: Errorf_sink_def)
  from m have later: "\<exists>m. m \<noteq> [] \<and>
      map_of (SinkErrors (Status (collects ps' (collect lv ci c)))) (sinks ! i) = Some m"
    by blast
  show ?thesis
    using k(1,2) entry msg stat later by (intro exI [of _ k] conjI)
qed

text \<open>
  A collector with the one sink \<^verbatim>\<open>log\<close>, at its first collection: once with a \<^verbatim>\<open>Send\<close>
  that returns \<^verbatim>\<open>nil\<close>, once with a \<^verbatim>\<open>Send\<close> that returns the error \<^verbatim>\<open>timeout\<close>.
\<close>

theorem sink_error_recorded_after_every_send_witness:
  "map_of (c_sinkErrors (collect ''L1''
       \<lparr>ci_now = 0, ci_metrics = True, ci_err = None, ci_sendNow = (\<lambda>i. ''t''),
        ci_send = (\<lambda>i. None)\<rparr> (NewLevelCollector ''m'' [''log'']))) ''log''
     = Some (Some ''[t] %!s(<nil>)'')
   \<and> map_of (SinkErrors (Status (collect ''L1''
       \<lparr>ci_now = 0, ci_metrics = True, ci_err = None, ci_sendNow = (\<lambda>i. ''t''),
        ci_send = (\<lambda>i. None)\<rparr> (NewLevelCollector ''m'' [''log''])))) ''log''
     = Some ''[t] %!s(<nil>)''
   \<and> map_of (c_sinkErrors (collect ''L1''
       \<lparr>ci_now = 0, ci_metrics = True, ci_err = None, ci_sendNow = (\<lambda>i. ''t''),
        ci_send = (\<lambda>i. Some ''timeout'')\<rparr> (NewLevelCollector ''m'' [''log'']))) ''log''
     = Some (Some ''[t] timeout'')
   \<and> map_of (SinkErrors (Status (collect ''L1''
       \<lparr>ci_now = 0, ci_metrics = True, ci_err = None, ci_sendNow = (\<lambda>i. ''t''),
        ci_send = (\<lambda>i. Some ''timeout'')\<rparr> (NewLevelCollector ''m'' [''log''])))) ''log''
     = Some ''[t] timeout''"
proof -
  let ?ok = "\<lparr>ci_now = 0, ci_metrics = True, ci_err = None, ci_sendNow = (\<lambda>i. ''t''),
              ci_send = (\<lambda>i. None)\<rparr>"
  let ?ko = "\<lparr>ci_now = 0, ci_metrics = True, ci_err = None, ci_sendNow = (\<lambda>i. ''t''),
              ci_send = (\<lambda>i. Some ''timeout'')\<rparr>"
  have c: "NewLevelCollector ''m'' [''log''] = collects [] (NewLevelCollector ''m'' [''log''])"
    by simp
  have m: "ci_metrics ?ok" "ci_metrics ?ko" and i: "0 < length [''log'']"
    by simp_all
  note t = sink_error_recorded_after_every_send
  from t [OF c m(1) i, of "''L1''" "[]"]
  have ok: "map_of (c_sinkErrors (collect ''L1'' ?ok (NewLevelCollector ''m'' [''log'']))) ''log''
      = Some (Some ''[t] %!s(<nil>)'')
    \<and> map_of (SinkErrors (Status (collect ''L1'' ?ok (NewLevelCollector ''m'' [''log''])))) ''log''
      = Some ''[t] %!s(<nil>)''"
    by (auto simp: Errorf_sink_def)
  from t [OF c m(2) i, of "''L1''" "[]"]
  have ko: "map_of (c_sinkErrors (collect ''L1'' ?ko (NewLevelCollector ''m'' [''log'']))) ''log''
      = Some (Some ''[t] timeout'')
    \<and> map_of (SinkErrors (Status (collect ''L1'' ?ko (NewLevelCollector ''m'' [''log''])))) ''log''
      = Some ''[t] timeout''"
    by (auto simp: Errorf_sink_def)
  from ok ko show ?thesis by (elim conjE) (intro conjI)
qed


subsection \<open>Level plan adjuster\<close>

lemma states_NewLevelAdjuster:
  "a_states (NewLevelAdjuster parse cfg) STATE_READ_ONLY
     = \<lparr>ch_after = parse (cfg_After (cfg_ReadOnly cfg)), ch_plan = cfg_Plan (cfg_ReadOnly cfg)\<rparr>"
  "a_states (NewLevelAdjuster parse cfg) STATE_ACTIVE
     = \<lparr>ch_after = parse (cfg_After (cfg_Active cfg)), ch_plan = cfg_Plan (cfg_Active cfg)\<rparr>"
  by (simp_all add: NewLevelAdjuster_def STATE_READ_ONLY_def STATE_ACTIVE_def
      STATE_OFFLINE_def STATE_STANDBY_def)

text \<open>
  Claim C6, as amended. With a dwell of 2 seconds for read-only and a read-only plan
  that is named, for the observations \<open>t0\<close> active, \<open>t1\<close> read-only, \<open>t2\<close> read-only, \<open>t3\<close>
  read-only, one \<^verbatim>\<open>CheckState\<close> per second from the bootstrap state: the check at \<open>t0\<close>
  applies the active state, the checks at \<open>t1\<close> and \<open>t2\<close> change nothing on the collector
  (at \<open>t2\<close> only one second has passed since read-only was first seen at \<open>t1\<close>), and
  \<^verbatim>\<open>ChangePlan("read-only", ro-plan)\<close> is issued exactly once, at \<open>t3\<close>.
\<close>

theorem read_only_dwell_commits_at_t3:
  assumes "parse (cfg_After (cfg_ReadOnly cfg)) = 2 * Second"
    and "cfg_Plan (cfg_ReadOnly cfg) \<noteq> []"
  shows "check_states
           [(t, STATE_ACTIVE), (t + Second, STATE_READ_ONLY),
            (t + 2 * Second, STATE_READ_ONLY), (t + 3 * Second, STATE_READ_ONLY)]
           (NewLevelAdjuster parse cfg)
         = [adjuster_changePlan STATE_ACTIVE (cfg_Plan (cfg_Active cfg)), [], [],
            [LpcChangePlan STATE_READ_ONLY (cfg_Plan (cfg_ReadOnly cfg))]]"
proof -
  define S where "S = a_states (NewLevelAdjuster parse cfg)"
  let ?ro = "cfg_Plan (cfg_ReadOnly cfg)"
  let ?off = "\<lparr>s_state = STATE_OFFLINE, s_plan = [], s_ts = 0\<rparr>"
  let ?act = "\<lparr>s_state = STATE_ACTIVE, s_plan = [], s_ts = t\<rparr>"
  let ?zero = "\<lparr>s_state = [], s_plan = [], s_ts = 0\<rparr>"
  let ?pend = "\<lparr>s_state = STATE_READ_ONLY, s_plan = ?ro, s_ts = t + Second\<rparr>"
  let ?a0 = "\<lparr>a_states = S, a_prev = ?zero, a_curr = ?off, a_pending = ?zero, a_first = True\<rparr>"
  let ?a1 = "\<lparr>a_states = S, a_prev = ?off, a_curr = ?act, a_pending = ?zero, a_first = False\<rparr>"
  let ?a2 = "\<lparr>a_states = S, a_prev = ?off, a_curr = ?act, a_pending = ?pend, a_first = False\<rparr>"
  have a0: "NewLevelAdjuster parse cfg = ?a0"
    by (simp add: S_def NewLevelAdjuster_def zeroState_def)
  have Sro: "S STATE_READ_ONLY = \<lparr>ch_after = 2 * Second, ch_plan = ?ro\<rparr>"
    and Sact: "ch_plan (S STATE_ACTIVE) = cfg_Plan (cfg_Active cfg)"
    by (simp_all add: S_def states_NewLevelAdjuster assms(1))
  have ne: "STATE_ACTIVE \<noteq> STATE_OFFLINE" "STATE_READ_ONLY \<noteq> STATE_ACTIVE"
    "STATE_ACTIVE \<noteq> []" "STATE_READ_ONLY \<noteq> []"
    by (simp_all add: STATE_ACTIVE_def STATE_OFFLINE_def STATE_READ_ONLY_def)
  have c0: "CheckState t STATE_ACTIVE ?a0
      = (?a1, adjuster_changePlan STATE_ACTIVE (cfg_Plan (cfg_Active cfg)),
         [STATE_CHANGE_END STATE_ACTIVE])"
    by (simp add: CheckState_def ne Sact zeroState_def)
  have c1: "CheckState (t + Second) STATE_READ_ONLY ?a1
      = (?a2, [], [STATE_CHANGE_BEGIN STATE_READ_ONLY])"
    by (simp add: CheckState_def ne Sro)
  have c2: "CheckState (t + 2 * Second) STATE_READ_ONLY ?a2 = (?a2, [], [])"
    by (simp add: CheckState_def ne Sro Second_def)
  have c3: "fst (snd (CheckState (t + 3 * Second) STATE_READ_ONLY ?a2))
      = [LpcChangePlan STATE_READ_ONLY ?ro]"
    using assms(2)
    by (simp add: CheckState_def ne Sro Second_def adjuster_changePlan_def)
  have step: "\<And>now obsv os a. check_states ((now, obsv) # os) a
      = fst (snd (CheckState now obsv a)) # check_states os (fst (CheckState now obsv a))"
    by (simp split: prod.splits)
  show ?thesis
    unfolding a0 step c0 c1 c2 c3 fst_conv snd_conv check_states.simps(1) ..
qed

text \<open>The scenario with times and plans filled in: nothing is issued at \<open>t2\<close>.\<close>

theorem read_only_dwell_counterexample:
  "check_states
     [(1000 * Second, ''active''), (1001 * Second, ''read-only''),
      (1002 * Second, ''read-only''), (1003 * Second, ''read-only'')]
     (NewLevelAdjuster example_parse example_adjust)
   = [[LpcChangePlan ''active'' ''active-plan''], [], [], [LpcChangePlan ''read-only'' ''ro-plan'']]"
  by (simp add: CheckState_def NewLevelAdjuster_def example_parse_def example_adjust_def
      adjuster_changePlan_def zeroState_def zeroChange_def Second_def
      STATE_NONE_def STATE_OFFLINE_def STATE_STANDBY_def STATE_READ_ONLY_def STATE_ACTIVE_def)

theorem read_only_dwell_commits_at_t3_witness:
  "check_states
     [(1000 * Second, STATE_ACTIVE), (1000 * Second + Second, STATE_READ_ONLY),
      (1000 * Second + 2 * Second, STATE_READ_ONLY), (1000 * Second + 3 * Second, STATE_READ_ONLY)]
     (NewLevelAdjuster example_parse example_adjust)
   = [[LpcChangePlan ''active'' ''active-plan''], [], [], [LpcChangePlan ''read-only'' ''ro-plan'']]"
proof -
  have p: "example_parse (cfg_After (cfg_ReadOnly example_adjust)) = 2 * Second"
    by (simp add: example_parse_def example_adjust_def)
  have n: "cfg_Plan (cfg_ReadOnly example_adjust) \<noteq> []"
    by (simp add: example_adjust_def)
  show ?thesis
    using read_only_dwell_commits_at_t3
      [where parse = example_parse and cfg = example_adjust and t = "1000 * Second", OF p n]
    by (simp add: example_adjust_def adjuster_changePlan_def STATE_ACTIVE_def STATE_READ_ONLY_def)
qed

subsection \<open>Plans loaded\<close>

text \<open>
  Claim C8 asks that \<^verbatim>\<open>PlansLoaded\<close> of a monitor return one entry for each of the
  monitor's own plans, with the name and source of that plan. The code reads entry \<open>i\<close>
  from the shared plans: for a monitor with one plan of its own it returns the first
  shared plan, and for a monitor with more plans than there are shared plans it panics.
\<close>

theorem PlansLoaded_reads_shared_plans:
  "PlansLoaded example_plans ''db1''
     = Inr [\<lparr>pld_Name = ''default.yaml'', pld_Source = ''/etc/blip/default.yaml''\<rparr>]
   \<and> own_plans_loaded example_plans ''db1''
     = [\<lparr>pld_Name = ''db1.yaml'', pld_Source = ''/etc/blip/db1.yaml''\<rparr>]
   \<and> PlansLoaded example_plans ''db2'' = Inl IndexOutOfRange
   \<and> own_plans_loaded example_plans ''db2''
     = [\<lparr>pld_Name = ''a.yaml'', pld_Source = ''/etc/blip/a.yaml''\<rparr>,
        \<lparr>pld_Name = ''b.yaml'', pld_Source = ''/etc/blip/b.yaml''\<rparr>]"
proof -
  have u1: "[0..<Suc 0] = [0]" and u2: "[0..<2] = [0, Suc 0]"
    by (simp_all add: upt_rec)
  show ?thesis
    by (simp add: PlansLoaded_def own_plans_loaded_def monitorPlans_def example_plans_def u1 u2)
qed

subsection \<open>Preparing the collector of size.data\<close>

text \<open>
  Claim C9 asks that \<^verbatim>\<open>Prepare\<close> set the total flag of every level whose \<^verbatim>\<open>total\<close> option is
  \<^verbatim>\<open>yes\<close>. The code compares the option with \<^verbatim>\<open>yse\<close>: for a plan whose one level sets
  \<^verbatim>\<open>total: yes\<close> the flag stays unset, whatever query \<^verbatim>\<open>DataSizeQuery\<close> returns.
\<close>

theorem Prepare_total_yes_not_set:
  "getOption [(''total'', ''yes'')] OPT_TOTAL = ''yes''
   \<and> Prepare dsq example_size_plan NewData =
       (case dsq [(''total'', ''yes'')] of
          Inl err \<Rightarrow> (Some err, NewData)
        | Inr q \<Rightarrow> (None, \<lparr>dt_query = [(''sizes'', q)], dt_total = []\<rparr>))
   \<and> total_at (snd (Prepare dsq example_size_plan NewData)) ''sizes'' = False"
  by (cases "dsq [(''total'', ''yes'')]")
     (simp_all add: Prepare_def example_size_plan_def getDomain_def DOMAIN_def OPT_TOTAL_def
        getOption_def NewData_def total_at_def Let_def)

subsection \<open>Stop-loss of the monitor loader\<close>

lemma example_changes:
  "Loader_Changes example_makeMonitor example_all (example_loader p n) = Inr example_removed"
  by (simp add: Loader_Changes_def example_all_def example_loader_def example_ids_def
      example_makeMonitor_def example_monitor_def example_removed_def)

lemma example_apply_changes:
  "apply_changes example_removed (ml_dbmon (example_loader p n))
     = take 4 (ml_dbmon (example_loader p n))"
  by (simp add: apply_changes_def example_loader_def example_ids_def MonitorId_def
      example_monitor_def example_removed_def)

lemma example_stopped:
  "map MonitorId (Removed example_removed) @ map MonitorId (Changed example_removed)
     = drop 4 example_ids"
  by (simp add: example_ids_def MonitorId_def example_monitor_def example_removed_def)

lemma example_Load:
  assumes "stop_loss_errMsg (example_loader p n) example_removed = []"
  shows "Load example_makeMonitor (Inr example_all) (example_loader p n) =
       \<lparr>lr_events = [''MONITORS_LOADING'', ''MONITORS_LOADED''], lr_err = None,
        lr_stopped = drop 4 example_ids,
        lr_loader = (example_loader p n)\<lparr>ml_dbmon := take 4 (ml_dbmon (example_loader p n))\<rparr>\<rparr>"
  unfolding Load_def
  by (simp only: example_changes sum.case assms example_apply_changes example_stopped
      simp_thms if_False)

text \<open>
  Claim C2 asks that \<^verbatim>\<open>Load\<close> refuse a reconciliation that removes more than the stop-loss
  percentage, or more than the stop-loss number, of the loaded monitors. The code takes
  the number of removed monitors for the number of monitors now, so it measures what
  is kept, not what is lost: with 10 monitors loaded and 6 of them removed, a stop-loss of
  50 percent and a stop-loss of 5 monitors both let the removal through; the 6 monitors
  are stopped and deleted, and no stop-loss event is sent.
\<close>

theorem Load_stop_loss_not_applied:
  "length (ml_dbmon (example_loader (1 / 2) 0)) = 10
   \<and> length (Removed example_removed) = 6
   \<and> ml_stopLossPercent (example_loader (1 / 2) 0)
       < of_nat (length (Removed example_removed))
         / of_nat (length (ml_dbmon (example_loader (1 / 2) 0)))
   \<and> Load example_makeMonitor (Inr example_all) (example_loader (1 / 2) 0) =
       \<lparr>lr_events = [''MONITORS_LOADING'', ''MONITORS_LOADED''], lr_err = None,
        lr_stopped = [''db4'', ''db5'', ''db6'', ''db7'', ''db8'', ''db9''],
        lr_loader = (example_loader (1 / 2) 0)
          \<lparr>ml_dbmon := take 4 (ml_dbmon (example_loader (1 / 2) 0))\<rparr>\<rparr>
   \<and> ml_stopLossNumber (example_loader 0 5) < length (Removed example_removed)
   \<and> Load example_makeMonitor (Inr example_all) (example_loader 0 5) =
       \<lparr>lr_events = [''MONITORS_LOADING'', ''MONITORS_LOADED''], lr_err = None,
        lr_stopped = [''db4'', ''db5'', ''db6'', ''db7'', ''db8'', ''db9''],
        lr_loader = (example_loader 0 5)\<lparr>ml_dbmon := take 4 (ml_dbmon (example_loader 0 5))\<rparr>\<rparr>"
proof -
  have l: "length (ml_dbmon (example_loader p n)) = 10" for p n
    by (simp add: example_loader_def example_ids_def)
  have r: "length (Removed example_removed) = 6"
    by (simp add: example_removed_def example_ids_def)
  have d: "drop 4 example_ids = [''db4'', ''db5'', ''db6'', ''db7'', ''db8'', ''db9'']"
    by (simp add: example_ids_def)
  have p: "ml_stopLossPercent (example_loader (1 / 2) 0)
       < of_nat (length (Removed example_removed))
         / of_nat (length (ml_dbmon (example_loader (1 / 2) 0)))"
    unfolding l r by (simp add: example_loader_def)
  have n: "ml_stopLossNumber (example_loader 0 5) < length (Removed example_removed)"
    unfolding r by (simp add: example_loader_def)
  have e1: "stop_loss_errMsg (example_loader (1 / 2) 0) example_removed = []"
    unfolding stop_loss_errMsg_def l r by (simp add: example_loader_def)
  have e2: "stop_loss_errMsg (example_loader 0 5) example_removed = []"
    unfolding stop_loss_errMsg_def l r by (simp add: example_loader_def)
  show ?thesis
    using l [of "1 / 2" 0] r p n example_Load [OF e1] example_Load [OF e2]
    unfolding d by (intro conjI)
qed

subsection \<open>Metric inheritance\<close>

lemma mem_content_None: "(d, None) \<in> content P n \<longleftrightarrow> d \<in> domainKeys (getLevel P n)"
  by (simp add: content_def)

lemma mem_content_Some: "(d, Some m) \<in> content P n \<longleftrightarrow> m \<in> metricsOf (getLevel P n) d"
  by (simp add: content_def)

lemma content_eq_iff:
  "content P n = content P' n' \<longleftrightarrow>
     domainKeys (getLevel P n) = domainKeys (getLevel P' n')
     \<and> (\<forall>d. metricsOf (getLevel P n) d = metricsOf (getLevel P' n') d)"
proof
  assume eq: "content P n = content P' n'"
  have "d \<in> domainKeys (getLevel P n) \<longleftrightarrow> d \<in> domainKeys (getLevel P' n')" for d
    using eq mem_content_None by metis
  moreover have "m \<in> metricsOf (getLevel P n) d \<longleftrightarrow> m \<in> metricsOf (getLevel P' n') d" for m d
    using eq mem_content_Some by metis
  ultimately show "domainKeys (getLevel P n) = domainKeys (getLevel P' n')
     \<and> (\<forall>d. metricsOf (getLevel P n) d = metricsOf (getLevel P' n') d)"
    by blast
next
  assume "domainKeys (getLevel P n) = domainKeys (getLevel P' n')
     \<and> (\<forall>d. metricsOf (getLevel P n) d = metricsOf (getLevel P' n') d)"
  then have a: "domainKeys (getLevel P n) = domainKeys (getLevel P' n')"
    and b: "\<And>d. metricsOf (getLevel P n) d = metricsOf (getLevel P' n') d"
    by simp_all
  show "content P n = content P' n'"
    unfolding content_def a b ..
qed

lemma content_subset_keys:
  assumes "content P n \<subseteq> content P' n'"
  shows "domainKeys (getLevel P n) \<subseteq> domainKeys (getLevel P' n')"
proof
  fix d assume "d \<in> domainKeys (getLevel P n)"
  then have "(d, None) \<in> content P n" by (simp add: mem_content_None)
  with assms have "(d, None) \<in> content P' n'" by blast
  then show "d \<in> domainKeys (getLevel P' n')" by (simp add: mem_content_None)
qed

lemma metricsOf_keys:
  assumes "m \<in> metricsOf lvl d"
  shows "d \<in> domainKeys lvl"
proof -
  from assms obtain dm where "getDomain lvl d = Some dm"
    by (cases "getDomain lvl d") (simp_all add: metricsOf_def)
  then obtain cm where cm: "l_Collect lvl = Some cm" "map_of cm d = Some dm"
    by (cases "l_Collect lvl") (simp_all add: getDomain_def)
  from cm(2) have "(d, dm) \<in> set cm" by (rule map_of_SomeD)
  then have "d \<in> fst ` set cm" by (rule rev_image_eqI) simp
  with cm(1) show ?thesis by (simp add: domainKeys_def domainsOf_def)
qed

lemma content_slices: "content P r = (\<Union>d\<in>domainKeys (getLevel P r). slice P r d)"
proof (rule set_eqI)
  fix p :: "string \<times> string option"
  obtain d x where p: "p = (d, x)" by (cases p)
  show "p \<in> content P r \<longleftrightarrow> p \<in> (\<Union>d\<in>domainKeys (getLevel P r). slice P r d)"
  proof (cases x)
    case None
    then show ?thesis by (simp add: p content_def slice_def)
  next
    case (Some m)
    then show ?thesis
      using metricsOf_keys [of m "getLevel P r" d]
      by (auto simp: p content_def slice_def)
  qed
qed

lemma levelHeads_map_entry:
  "levelHeads (AList.map_entry k (\<lambda>l. l\<lparr>l_Collect := c\<rparr>) P) = levelHeads P"
  by (induction P) (auto simp: levelHeads_def)

lemma getLevel_map_entry:
  "getLevel (AList.map_entry k f P) n =
     (if n = k then (case map_of P k of None \<Rightarrow> zeroLevel | Some l \<Rightarrow> f l) else getLevel P n)"
  by (simp add: getLevel_def map_of_map_entry split: option.splits)

lemma inheritDomain_nil:
  "l_Collect (getLevel P l) = None \<Longrightarrow> inheritDomain r l d P = Inl NilMapAssign"
  by (simp add: inheritDomain_def Let_def)

lemma inheritDomain_Some:
  assumes "l_Collect (getLevel P l) = Some cm"
  shows "\<exists>v. inheritDomain r l d P
            = Inr (AList.map_entry l (\<lambda>x. x\<lparr>l_Collect := Some (AList.update d v cm)\<rparr>) P)
          \<and> set (d_Metrics v) = metricsOf (getLevel P l) d \<union> metricsOf (getLevel P r) d"
proof -
  define rdom where
    "rdom = (case getDomain (getLevel P r) d of Some x \<Rightarrow> x | None \<Rightarrow> zeroDomain)"
  have rm: "set (d_Metrics rdom) = metricsOf (getLevel P r) d"
    by (simp add: rdom_def metricsOf_def zeroDomain_def split: option.splits)
  have gd: "getDomain (getLevel P l) d = map_of cm d"
    by (simp add: getDomain_def assms)
  show ?thesis
  proof (cases "map_of cm d")
    case None
    have "inheritDomain r l d P
        = Inr (AList.map_entry l (\<lambda>x. x\<lparr>l_Collect := Some (AList.update d rdom cm)\<rparr>) P)"
      by (simp add: inheritDomain_def Let_def assms None rdom_def)
    moreover have "set (d_Metrics rdom) = metricsOf (getLevel P l) d \<union> metricsOf (getLevel P r) d"
      by (simp add: rm metricsOf_def gd None)
    ultimately show ?thesis by blast
  next
    case (Some dm)
    let ?v = "dm\<lparr>d_Metrics := d_Metrics dm @ d_Metrics rdom\<rparr>"
    have "inheritDomain r l d P
        = Inr (AList.map_entry l (\<lambda>x. x\<lparr>l_Collect := Some (AList.update d ?v cm)\<rparr>) P)"
      by (simp add: inheritDomain_def Let_def assms Some rdom_def)
    moreover have "set (d_Metrics ?v) = metricsOf (getLevel P l) d \<union> metricsOf (getLevel P r) d"
      by (simp add: rm metricsOf_def gd Some)
    ultimately show ?thesis by blast
  qed
qed

lemma getLevel_key:
  "l_Collect (getLevel P l) = Some cm \<Longrightarrow> \<exists>lf. map_of P l = Some lf \<and> getLevel P l = lf"
  by (cases "map_of P l") (simp_all add: getLevel_def zeroLevel_def)

lemma inheritDomain_content:
  assumes "inheritDomain r l d P = Inr P'"
  shows "content P' n = (if n = l then content P l \<union> slice P r d else content P n)"
    and "levelHeads P' = levelHeads P"
proof -
  from assms obtain cm where cm: "l_Collect (getLevel P l) = Some cm"
    by (cases "l_Collect (getLevel P l)") (simp_all add: inheritDomain_nil)
  from inheritDomain_Some [OF cm, of r d] assms
  obtain v where P': "P' = AList.map_entry l (\<lambda>x. x\<lparr>l_Collect := Some (AList.update d v cm)\<rparr>) P"
    and v: "set (d_Metrics v) = metricsOf (getLevel P l) d \<union> metricsOf (getLevel P r) d"
    by auto
  from getLevel_key [OF cm] obtain lf where lf: "map_of P l = Some lf" "getLevel P l = lf"
    by auto
  show "levelHeads P' = levelHeads P"
    unfolding P' by (rule levelHeads_map_entry)
  have gl: "getLevel P' l = lf\<lparr>l_Collect := Some (AList.update d v cm)\<rparr>"
    unfolding P' by (simp add: getLevel_map_entry lf)
  have go: "n \<noteq> l \<Longrightarrow> getLevel P' n = getLevel P n" for n
    unfolding P' by (simp add: getLevel_map_entry)
  have keys: "domainKeys (getLevel P' l) = insert d (domainKeys (getLevel P l))"
    using cm lf by (simp add: gl domainKeys_def domainsOf_def dom_update)
  have mets: "metricsOf (getLevel P' l) d' =
      (if d' = d then metricsOf (getLevel P l) d \<union> metricsOf (getLevel P r) d
       else metricsOf (getLevel P l) d')" for d'
    using cm lf v by (simp add: gl metricsOf_def getDomain_def update_conv')
  have "content P' l = content P l \<union> slice P r d"
  proof (rule set_eqI)
    fix p :: "string \<times> string option"
    obtain d' x where p: "p = (d', x)" by (cases p)
    show "p \<in> content P' l \<longleftrightarrow> p \<in> content P l \<union> slice P r d"
      by (cases x) (auto simp: p content_def slice_def keys mets)
  qed
  moreover have "content P' n = content P n" if "n \<noteq> l"
    unfolding content_def go [OF that] ..
  ultimately show "content P' n = (if n = l then content P l \<union> slice P r d else content P n)"
    by simp
qed

lemma inheritDomain_ok:
  assumes "d \<in> domainKeys (getLevel P l)"
  shows "\<exists>P'. inheritDomain r l d P = Inr P'"
proof -
  from assms obtain cm where "l_Collect (getLevel P l) = Some cm"
    by (cases "l_Collect (getLevel P l)") (simp_all add: domainKeys_def domainsOf_def)
  from inheritDomain_Some [OF this, of r d] show ?thesis by blast
qed

lemma inheritDomains_content:
  assumes "inheritDomains r l ds P = Inr P'" and "r \<noteq> l"
  shows "content P' n = (if n = l then content P l \<union> (\<Union>d\<in>set ds. slice P r d) else content P n)
    \<and> levelHeads P' = levelHeads P"
  using assms(1)
proof (induction ds arbitrary: P)
  case Nil
  then show ?case by simp
next
  case (Cons d ds)
  from Cons.prems obtain P1 where P1: "inheritDomain r l d P = Inr P1"
    and rest: "inheritDomains r l ds P1 = Inr P'"
    by (cases "inheritDomain r l d P") simp_all
  have c1: "content P1 m = (if m = l then content P l \<union> slice P r d else content P m)" for m
    by (rule inheritDomain_content(1) [OF P1])
  have h1: "levelHeads P1 = levelHeads P"
    by (rule inheritDomain_content(2) [OF P1])
  have "content P1 r = content P r"
    using assms(2) by (simp add: c1)
  then have m: "metricsOf (getLevel P1 r) d' = metricsOf (getLevel P r) d'" for d'
    by (simp add: content_eq_iff)
  have sl: "slice P1 r d' = slice P r d'" for d'
    unfolding slice_def m ..
  from Cons.IH [OF rest] show ?case
    by (auto simp: c1 h1 sl)
qed

lemma inheritDomains_ok:
  assumes "set ds \<subseteq> domainKeys (getLevel P l)"
  shows "\<exists>P'. inheritDomains r l ds P = Inr P'"
  using assms
proof (induction ds arbitrary: P)
  case Nil
  then show ?case by simp
next
  case (Cons d ds)
  from Cons.prems have "d \<in> domainKeys (getLevel P l)" by simp
  from inheritDomain_ok [OF this, of r] obtain P1 where P1: "inheritDomain r l d P = Inr P1"
    by blast
  have "content P l \<subseteq> content P1 l"
    by (simp add: inheritDomain_content(1) [OF P1])
  then have "domainKeys (getLevel P l) \<subseteq> domainKeys (getLevel P1 l)"
    by (rule content_subset_keys)
  with Cons.prems have "set ds \<subseteq> domainKeys (getLevel P1 l)" by auto
  from Cons.IH [OF this] show ?case
    by (simp add: P1)
qed

lemma inheritLeaves_content:
  assumes "inheritLeaves r ls P = Inr P'" and "r \<notin> set ls"
  shows "content P' n = (if n \<in> set ls then content P n \<union> content P r else content P n)
    \<and> levelHeads P' = levelHeads P"
  using assms
proof (induction ls arbitrary: P)
  case Nil
  then show ?case by simp
next
  case (Cons l ls)
  from Cons.prems(2) have rl: "r \<noteq> l" and rls: "r \<notin> set ls" by auto
  from Cons.prems(1) obtain P1
    where P1: "inheritDomains r l (domainsOf (getLevel P r)) P = Inr P1"
      and rest: "inheritLeaves r ls P1 = Inr P'"
    by (cases "inheritDomains r l (domainsOf (getLevel P r)) P") simp_all
  have sl: "(\<Union>d\<in>set (domainsOf (getLevel P r)). slice P r d) = content P r"
    by (simp add: content_slices domainKeys_def)
  have c1: "content P1 m = (if m = l then content P l \<union> content P r else content P m)" for m
    using inheritDomains_content [OF P1 rl, of m] by (simp add: sl)
  have h1: "levelHeads P1 = levelHeads P"
    using inheritDomains_content [OF P1 rl, of r] by simp
  have c1r: "content P1 r = content P r"
    using rl by (simp add: c1)
  from Cons.IH [OF rest rls] show ?case
    by (auto simp: c1 c1r h1)
qed

lemma inheritLeaves_ok:
  assumes "\<forall>l\<in>set ls. content P r \<subseteq> content P l" and "r \<notin> set ls"
  shows "\<exists>P'. inheritLeaves r ls P = Inr P'"
  using assms
proof (induction ls arbitrary: P)
  case Nil
  then show ?case by simp
next
  case (Cons l ls)
  from Cons.prems(2) have rl: "r \<noteq> l" and rls: "r \<notin> set ls" by auto
  from Cons.prems(1) have sub: "content P r \<subseteq> content P l" by simp
  then have "set (domainsOf (getLevel P r)) \<subseteq> domainKeys (getLevel P l)"
    using content_subset_keys [OF sub] by (simp add: domainKeys_def)
  from inheritDomains_ok [OF this, of r]
  obtain P1 where P1: "inheritDomains r l (domainsOf (getLevel P r)) P = Inr P1"
    by blast
  have sl: "(\<Union>d\<in>set (domainsOf (getLevel P r)). slice P r d) = content P r"
    by (simp add: content_slices domainKeys_def)
  have c1: "content P1 m = content P m" for m
    using inheritDomains_content [OF P1 rl, of m] sub by (auto simp: sl)
  from Cons.prems(1) have "\<forall>l\<in>set ls. content P1 r \<subseteq> content P1 l"
    by (simp add: c1)
  from Cons.IH [OF this rls] show ?case
    by (simp add: P1)
qed

lemma inheritAll_content:
  assumes "inheritAll ns P = Inr P'" and "distinct ns"
  shows "content P n \<subseteq> content P' n
    \<and> (n \<notin> set ns \<longrightarrow> content P' n = content P n)
    \<and> levelHeads P' = levelHeads P"
  using assms
proof (induction ns arbitrary: P)
  case Nil
  then show ?case by simp
next
  case (Cons r rs)
  from Cons.prems(2) have rrs: "r \<notin> set rs" and d: "distinct rs" by auto
  from Cons.prems(1) obtain P1
    where P1: "inheritLeaves r rs P = Inr P1" and rest: "inheritAll rs P1 = Inr P'"
    by (cases "inheritLeaves r rs P") simp_all
  have c1: "content P1 n = (if n \<in> set rs then content P n \<union> content P r else content P n)"
    and h1: "levelHeads P1 = levelHeads P"
    using inheritLeaves_content [OF P1 rrs, of n] by simp_all
  from Cons.IH [OF rest d] c1 h1 show ?case
    by (auto split: if_splits)
qed

lemma inherited_cong:
  "(\<And>n. content P' n = content P n) \<Longrightarrow> inherited ns P' = inherited ns P"
  by (induction ns) simp_all

lemma inheritAll_inherited:
  assumes "inheritAll ns P = Inr P'" and "distinct ns"
  shows "inherited ns P'"
  using assms
proof (induction ns arbitrary: P)
  case Nil
  then show ?case by simp
next
  case (Cons r rs)
  from Cons.prems(2) have rrs: "r \<notin> set rs" and d: "distinct rs" by auto
  from Cons.prems(1) obtain P1
    where P1: "inheritLeaves r rs P = Inr P1" and rest: "inheritAll rs P1 = Inr P'"
    by (cases "inheritLeaves r rs P") simp_all
  have c1: "content P1 n = (if n \<in> set rs then content P n \<union> content P r else content P n)" for n
    using inheritLeaves_content [OF P1 rrs, of n] by simp
  have r': "content P' r = content P r"
    using inheritAll_content [OF rest d, of r] rrs by (simp add: c1)
  have "content P r \<subseteq> content P' l" if "l \<in> set rs" for l
    using inheritAll_content [OF rest d, of l] that by (auto simp: c1)
  with r' Cons.IH [OF rest d] show ?case by simp
qed

lemma inheritAll_again:
  assumes "inherited ns P" and "distinct ns"
  shows "\<exists>P'. inheritAll ns P = Inr P' \<and> (\<forall>n. content P' n = content P n)
    \<and> levelHeads P' = levelHeads P"
  using assms
proof (induction ns arbitrary: P)
  case Nil
  then show ?case by simp
next
  case (Cons r rs)
  from Cons.prems(2) have rrs: "r \<notin> set rs" and d: "distinct rs" by auto
  from Cons.prems(1) have sub: "\<forall>l\<in>set rs. content P r \<subseteq> content P l"
    and inh: "inherited rs P" by simp_all
  from inheritLeaves_ok [OF sub rrs] obtain P1 where P1: "inheritLeaves r rs P = Inr P1"
    by blast
  have c1: "content P1 n = content P n" for n
    using inheritLeaves_content [OF P1 rrs, of n] sub by auto
  have h1: "levelHeads P1 = levelHeads P"
    using inheritLeaves_content [OF P1 rrs, of r] by simp
  have "inherited rs P1"
    using inherited_cong [of P1 P rs] c1 inh by simp
  from Cons.IH [OF this d] obtain P' where "inheritAll rs P1 = Inr P'"
    "\<forall>n. content P' n = content P1 n" "levelHeads P' = levelHeads P1"
    by blast
  then show ?case
    by (simp add: P1 c1 h1)
qed

lemma planLevels_heads:
  "planLevels secs plan =
     sort_key lv_freq
       (map (\<lambda>(k, n, f). \<lparr>lv_freq = secs f, lv_name = n\<rparr>) (levelHeads (p_Levels plan)))"
  by (simp add: planLevels_def levelHeads_def split_def comp_def)

lemma distinct_planLevels:
  assumes "distinct (map (\<lambda>(k, l). l_Name l) (p_Levels plan))"
  shows "distinct (map lv_name (planLevels secs plan))"
proof -
  let ?xs = "map (\<lambda>(k, l). \<lparr>lv_freq = secs (l_Freq l), lv_name = l_Name l\<rparr>) (p_Levels plan)"
  have e: "map lv_name ?xs = map (\<lambda>(k, l). l_Name l) (p_Levels plan)"
    by (simp add: split_def comp_def)
  have "distinct (map lv_name ?xs)"
    unfolding e by (rule assms)
  then have "distinct ?xs \<and> inj_on lv_name (set ?xs)"
    by (simp only: distinct_map)
  then have "distinct (sort_key lv_freq ?xs) \<and> inj_on lv_name (set (sort_key lv_freq ?xs))"
    by simp
  then show ?thesis
    unfolding planLevels_def by (simp only: distinct_map)
qed

text \<open>
  Claim C3, as amended. For a plan whose level names are unique, when \<^verbatim>\<open>sortedLevels\<close> has
  been applied once, applying it again to the plan (the levels visited in the same
  order) returns the same sorted levels and leaves every level with the same domains
  and, in each domain, the same set of metrics as the single application. (The metric
  lists themselves are not the same: the inherited metrics are appended once more.)
\<close>

theorem sortedLevels_twice_same_domains:
  assumes "distinct (map (\<lambda>(k, l). l_Name l) (p_Levels plan))"
    and "sortedLevels secs plan = Inr (levels, plan1)"
  shows "\<exists>plan2. sortedLevels secs plan1 = Inr (levels, plan2)
    \<and> (\<forall>n. domainKeys (getLevel (p_Levels plan2) n) = domainKeys (getLevel (p_Levels plan1) n))
    \<and> (\<forall>n d. metricsOf (getLevel (p_Levels plan2) n) d
              = metricsOf (getLevel (p_Levels plan1) n) d)"
proof -
  let ?ns = "map lv_name (planLevels secs plan)"
  have dn: "distinct ?ns"
    by (rule distinct_planLevels [OF assms(1)])
  from assms(2) obtain P1 where P1: "inheritAll ?ns (p_Levels plan) = Inr P1"
    and lv: "levels = planLevels secs plan" and p1: "plan1 = plan\<lparr>p_Levels := P1\<rparr>"
    by (cases "inheritAll ?ns (p_Levels plan)") (auto simp: sortedLevels_def Let_def)
  have h1: "levelHeads P1 = levelHeads (p_Levels plan)"
    using inheritAll_content [OF P1 dn] by simp
  have lv1: "planLevels secs (plan\<lparr>p_Levels := P1\<rparr>) = planLevels secs plan"
    by (simp add: planLevels_heads h1)
  have "inherited ?ns P1"
    by (rule inheritAll_inherited [OF P1 dn])
  from inheritAll_again [OF this dn] obtain P2 where P2: "inheritAll ?ns P1 = Inr P2"
    and c2: "\<forall>n. content P2 n = content P1 n"
    by blast
  have s2: "sortedLevels secs plan1 = Inr (levels, plan1\<lparr>p_Levels := P2\<rparr>)"
    by (simp add: sortedLevels_def Let_def lv1 lv p1 P2)
  have "domainKeys (getLevel P2 n) = domainKeys (getLevel P1 n)
      \<and> (\<forall>d. metricsOf (getLevel P2 n) d = metricsOf (getLevel P1 n) d)" for n
    using c2 content_eq_iff [of P2 n P1 n] by simp
  then show ?thesis
    using s2 by (intro exI [of _ "plan1\<lparr>p_Levels := P2\<rparr>"]) (simp add: p1)
qed

lemmas example_defs = example_secs_def example_domain_def example_level_def example_plan_def
  example_once_def example_twice_def example_levels_def

lemma sortedLevels_example_once:
  "sortedLevels example_secs example_plan = Inr (example_levels, example_once)"
  by (simp add: sortedLevels_def planLevels_def example_defs inheritDomain_def getLevel_def
      getDomain_def domainsOf_def Let_def)

lemma sortedLevels_example_twice:
  "sortedLevels example_secs example_once = Inr (example_levels, example_twice)"
  by (simp add: sortedLevels_def planLevels_def example_defs inheritDomain_def getLevel_def
      getDomain_def domainsOf_def Let_def)

text \<open>
  The second application appends the inherited metrics again: the metric list of
  \<^verbatim>\<open>status.global\<close> at level \<^verbatim>\<open>slow\<close> has one entry after one application and two after two.
\<close>

theorem sortedLevels_twice_counterexample:
  "sortedLevels example_secs example_plan = Inr (example_levels, example_once)
   \<and> sortedLevels example_secs example_once = Inr (example_levels, example_twice)
   \<and> map_option d_Metrics (getDomain (getLevel (p_Levels example_once) ''slow'') ''status.global'')
       = Some [''queries'']
   \<and> map_option d_Metrics (getDomain (getLevel (p_Levels example_twice) ''slow'') ''status.global'')
       = Some [''queries'', ''queries'']"
  by (simp add: sortedLevels_example_once sortedLevels_example_twice)
     (simp add: example_defs getLevel_def getDomain_def)

theorem sortedLevels_twice_same_domains_witness:
  "\<exists>plan2. sortedLevels example_secs example_once = Inr (example_levels, plan2)
     \<and> domainKeys (getLevel (p_Levels plan2) ''slow'') = {''size.data'', ''status.global''}
     \<and> metricsOf (getLevel (p_Levels plan2) ''slow'') ''status.global'' = {''queries''}"
proof -
  have d: "distinct (map (\<lambda>(k, l). l_Name l) (p_Levels example_plan))"
    by (simp add: example_defs)
  have k: "domainKeys (getLevel (p_Levels example_once) ''slow'') = {''size.data'', ''status.global''}"
    by (simp add: example_defs getLevel_def domainKeys_def domainsOf_def)
  have m: "metricsOf (getLevel (p_Levels example_once) ''slow'') ''status.global'' = {''queries''}"
    by (simp add: example_defs getLevel_def metricsOf_def getDomain_def)
  from sortedLevels_twice_same_domains [OF d sortedLevels_example_once]
  show ?thesis
    unfolding k [symmetric] m [symmetric] by blast
qed


subsection \<open>Changing the plan\<close>



















end
